(* ===== verification/Prelude.thy ===== *)
theory Prelude
  imports Main "HOL-Library.Product_Lexorder"
begin

text \<open>
  Shared vocabulary of the development: the JavaScript string and number primitives
  that src/js/idCardNoUtil.js calls (\<open>String.prototype.substring\<close>, \<open>charAt\<close>,
  \<open>toUpperCase\<close>, \<open>parseInt\<close>, the \<open>%\<close> operator, array indexing), written
  from the ECMAScript specification. JS strings are modelled as \<open>string\<close>, one
  \<open>char\<close> per UTF-16 code unit; the model's chars are the code units 0..255.
  JS numbers that occur in the program are small integers or \<open>NaN\<close>: a
  \<open>js_number\<close> is \<open>int option\<close>, \<open>None\<close> being \<open>NaN\<close>. An absent array
  element or object property (\<open>undefined\<close>) is \<open>None\<close> as well.
  The collection \<open>js_simps\<close> holds the evaluation rules of these primitives that the
  component theories hand to the simplifier.
\<close>

named_theorems js_simps "evaluation rules of the JavaScript primitives"

type_synonym js_number = "int option"

subsection \<open>Characters\<close>

definition is_digit :: "char \<Rightarrow> bool" where
  "is_digit c \<longleftrightarrow> (48::nat) \<le> of_char c \<and> of_char c \<le> (57::nat)"

definition digit_val :: "char \<Rightarrow> nat" where
  "digit_val c = of_char c - (48::nat)"

definition is_js_space :: "char \<Rightarrow> bool" where
  \<comment> \<open>WhiteSpace and LineTerminator code units below 256: TAB LF VT FF CR SP NBSP\<close>
  "is_js_space c \<longleftrightarrow> of_char c \<in> {9, 10, 11, 12, 13, 32, 160::nat}"

definition to_upper_char :: "char \<Rightarrow> char" where
  \<comment> \<open>\<open>toUpperCase\<close> on the ASCII letters; other code units are kept\<close>
  "to_upper_char c =
     (if (97::nat) \<le> of_char c \<and> of_char c \<le> (122::nat) then char_of (of_char c - (32::nat)) else c)"

definition to_upper :: "string \<Rightarrow> string" where
  "to_upper s = map to_upper_char s"

subsection \<open>Strings\<close>

definition js_substring :: "string \<Rightarrow> nat \<Rightarrow> nat \<Rightarrow> string" where
  \<comment> \<open>\<open>s.substring(a, b)\<close>: both ends clamped to the length, swapped if reversed\<close>
  "js_substring s a b =
     (let len = length s; a' = min a len; b' = min b len
      in take (max a' b' - min a' b') (drop (min a' b') s))"

definition js_substring_from :: "string \<Rightarrow> nat \<Rightarrow> string" where
  \<comment> \<open>\<open>s.substring(a)\<close>: the end defaults to the length\<close>
  "js_substring_from s a = js_substring s a (length s)"

definition char_at :: "string \<Rightarrow> nat \<Rightarrow> string" where
  \<comment> \<open>\<open>s.charAt(i)\<close>: the empty string out of range\<close>
  "char_at s i = (if i < length s then [s ! i] else [])"

subsection \<open>Numbers\<close>

definition digits_val :: "string \<Rightarrow> nat" where
  "digits_val ds = foldl (\<lambda>acc c. 10 * acc + digit_val c) 0 ds"

definition parse_int :: "string \<Rightarrow> js_number" where
  \<comment> \<open>\<open>parseInt(s, 10)\<close>: leading white space, an optional sign, the longest run of
      decimal digits; \<open>NaN\<close> when there is no digit\<close>
  "parse_int s =
     (let t = dropWhile is_js_space s;
          neg = (t \<noteq> [] \<and> hd t = CHR ''-'');
          u = (if t \<noteq> [] \<and> (hd t = CHR ''-'' \<or> hd t = CHR ''+'') then tl t else t);
          ds = takeWhile is_digit u
      in if ds = [] then None
         else Some ((if neg then -1 else 1) * int (digits_val ds)))"

definition js_add :: "js_number \<Rightarrow> js_number \<Rightarrow> js_number" where
  "js_add a b = (case (a, b) of (Some x, Some y) \<Rightarrow> Some (x + y) | _ \<Rightarrow> None)"

definition js_mul :: "js_number \<Rightarrow> js_number \<Rightarrow> js_number" where
  "js_mul a b = (case (a, b) of (Some x, Some y) \<Rightarrow> Some (x * y) | _ \<Rightarrow> None)"

definition js_rem :: "int \<Rightarrow> int \<Rightarrow> int" where
  \<comment> \<open>the \<open>%\<close> operator on integers: the sign of the dividend, truncating division\<close>
  "js_rem a b = sgn a * (\<bar>a\<bar> mod \<bar>b\<bar>)"

definition js_mod :: "js_number \<Rightarrow> int \<Rightarrow> js_number" where
  "js_mod a b = (case a of Some x \<Rightarrow> (if b = 0 then None else Some (js_rem x b)) | None \<Rightarrow> None)"

definition js_index :: "'a list \<Rightarrow> js_number \<Rightarrow> 'a option" where
  \<comment> \<open>\<open>xs[i]\<close>: \<open>undefined\<close> for \<open>NaN\<close> and out-of-range indices\<close>
  "js_index xs i =
     (case i of Some k \<Rightarrow> (if 0 \<le> k \<and> k < int (length xs) then Some (xs ! nat k) else None)
      | None \<Rightarrow> None)"

subsection \<open>Evaluation rules\<close>

lemma is_digit_not_sign: "is_digit c \<Longrightarrow> c \<noteq> CHR ''-'' \<and> c \<noteq> CHR ''+'' \<and> \<not> is_js_space c"
  by (auto simp: is_digit_def is_js_space_def)

lemma parse_int_digit [js_simps]: "is_digit c \<Longrightarrow> parse_int [c] = Some (int (digit_val c))"
  by (simp add: parse_int_def is_digit_not_sign digits_val_def Let_def)

lemma parse_int_non_digit [js_simps]: "\<not> is_digit c \<Longrightarrow> parse_int [c] = None"
  by (cases "is_js_space c") (simp_all add: parse_int_def Let_def)

lemma parse_int_Nil [js_simps]: "parse_int [] = None"
  by (simp add: parse_int_def)

lemma js_add_js_mul_simps [js_simps]:
  "js_add None x = None" "js_add x None = None" "js_mul None x = None" "js_mul x None = None"
  "js_add (Some a) (Some b) = Some (a + b)" "js_mul (Some a) (Some b) = Some (a * b)"
  by (simp_all add: js_add_def js_mul_def split: option.splits)

lemma js_rem_nonneg: "0 \<le> a \<Longrightarrow> 0 < b \<Longrightarrow> js_rem a b = a mod b"
  by (cases "a = 0") (simp_all add: js_rem_def)

lemma js_substring_prefix [js_simps]: "js_substring s 0 n = take n s"
  by (simp add: js_substring_def min_def Let_def)

lemma parse_int_digits:
  "ds \<noteq> [] \<Longrightarrow> list_all is_digit ds \<Longrightarrow> parse_int ds = Some (int (digits_val ds))"
proof (cases ds)
  case (Cons c cs)
  assume "list_all is_digit ds"
  with Cons have c: "is_digit c" and tw: "takeWhile is_digit cs = cs"
    by (simp_all add: list_all_iff takeWhile_eq_all_conv)
  from Cons c show ?thesis by (simp add: parse_int_def is_digit_not_sign Let_def tw)
qed simp

lemma js_substring_drop [js_simps]: "a \<le> b \<Longrightarrow> b \<le> length s \<Longrightarrow> js_substring s a b = take (b - a) (drop a s)"
  by (simp add: js_substring_def Let_def min_def max_def)

lemma js_substring_from_drop [js_simps]: "js_substring_from s a = drop a s"
  by (simp add: js_substring_from_def js_substring_def Let_def min_def max_def)

end
