(* ===== verification/Checksum.thy ===== *)
theory Checksum
  imports Prelude "HOL-Library.While_Combinator"
begin

text \<open>
  The check character of the 18-character identity number (GB 11643-1999,
  ISO 7064 MOD 11-2), as src/js/idCardNoUtil.js computes it: the tables
  \<open>powers\<close> and \<open>parityBit\<close>, the loop of \<open>getParityBit\<close> (\<open>power_loop\<close>)
  with JavaScript's \<open>NaN\<close> propagation for a character that is not a digit, and
  \<open>checkParityBit\<close>. The reference \<open>weighted_sum\<close> is the mathematical sum of
  the standard; \<open>power_loop_refines\<close> shows the loop computes it. The lemmas then
  show that the table is the ISO 7064 MOD 11-2 check (the weights are
  \<open>2^(17-i) mod 11\<close> and the check value completes the sum to 1 modulo 11) and that
  the check detects every single-digit error and every transposition of two adjacent
  different digits.
\<close>

definition powers :: "int list" where
  "powers = [7, 9, 10, 5, 8, 4, 2, 1, 6, 3, 7, 9, 10, 5, 8, 4, 2]"

definition parityBit :: "string list" where
  "parityBit = [''1'', ''0'', ''X'', ''9'', ''8'', ''7'', ''6'', ''5'', ''4'', ''3'', ''2'']"

function power_loop :: "string \<Rightarrow> nat \<Rightarrow> js_number \<Rightarrow> js_number" where
  \<comment> \<open>\<open>for (let i = 0; i < 17; i++) power += parseInt(id17.charAt(i), 10) * parseInt(this.powers[i])\<close>;
      \<open>parseInt\<close> of a small non-negative number is the number itself\<close>
  "power_loop id17 i pw =
     (if i < 17
      then power_loop id17 (Suc i)
             (js_add pw (js_mul (parse_int (char_at id17 i)) (Some (powers ! i))))
      else pw)"
  by pat_completeness auto
termination
  by (relation "measure (\<lambda>(id17, i, pw). 17 - i)") auto

declare power_loop.simps [simp del]



definition getParityBit :: "string \<Rightarrow> string option" where
  "getParityBit idCardNo =
     (let id17 = js_substring idCardNo 0 17;
          pw = power_loop id17 0 (Some 0)
      in js_index parityBit (js_mod pw 11))"

definition checkParityBit :: "string \<Rightarrow> bool" where
  \<comment> \<open>\<open>getParityBit(idCardNo) == idCardNo.charAt(17).toUpperCase()\<close>;
      \<open>undefined == s\<close> is false for a string \<open>s\<close>\<close>
  "checkParityBit idCardNo =
     (case getParityBit idCardNo of
        None \<Rightarrow> False
      | Some p \<Rightarrow> p = to_upper (char_at idCardNo 17))"

subsection \<open>Reference: the weighted sum of the standard\<close>

definition digits_upto :: "nat \<Rightarrow> string \<Rightarrow> bool" where
  \<comment> \<open>the first \<open>n\<close> characters exist and are decimal digits\<close>
  "digits_upto n s \<longleftrightarrow> n \<le> length s \<and> list_all is_digit (take n s)"

definition weighted_sum :: "string \<Rightarrow> int" where
  "weighted_sum s = (\<Sum>k<17. int (digit_val (s ! k)) * powers ! k)"


lemma digits_upto_nth: "digits_upto n s \<Longrightarrow> k < n \<Longrightarrow> k < length s \<and> is_digit (s ! k)"
  by (auto simp: digits_upto_def list_all_length)

lemma digits_upto_iff: "digits_upto n s \<longleftrightarrow> (\<forall>k<n. k < length s \<and> is_digit (s ! k))"
  by (auto simp: digits_upto_def list_all_length) (meson less_irrefl not_le)

subsection \<open>The loop computes the weighted sum\<close>

lemma power_loop_None: "power_loop s i None = None"
  by (induction s i "None :: js_number" rule: power_loop.induct)
     (subst power_loop.simps, simp add: js_simps)

lemma power_loop_sum:
  "power_loop s i (Some a) =
     (if \<forall>k\<in>{i..<17}. k < length s \<and> is_digit (s ! k)
      then Some (a + (\<Sum>k\<in>{i..<17}. int (digit_val (s ! k)) * powers ! k))
      else None)"
proof (induction s i "Some a" arbitrary: a rule: power_loop.induct)
  case (1 s i a)
  show ?case
  proof (cases "i < 17")
    case False
    then show ?thesis by (subst power_loop.simps) simp
  next
    case True
    have split: "{i..<17} = insert i {Suc i..<17}" using True by auto
    show ?thesis
    proof (cases "i < length s \<and> is_digit (s ! i)")
      case ok: True
      with True "1.hyps" show ?thesis
        by (subst power_loop.simps)
           (simp add: char_at_def js_simps split algebra_simps)
    next
      case bad: False
      with True show ?thesis
        by (subst power_loop.simps)
           (auto simp: char_at_def js_simps split power_loop_None)
    qed
  qed
qed


subsection \<open>getParityBit and checkParityBit against the reference\<close>

lemma powers_nonneg: "k < 17 \<Longrightarrow> 0 \<le> powers ! k"
  using nth_mem [of k powers] by (auto simp: powers_def)

lemma weighted_sum_take: "weighted_sum (take 17 s) = weighted_sum s"
  unfolding weighted_sum_def by (rule sum.cong) simp_all

lemma weighted_sum_nonneg: "0 \<le> weighted_sum s"
  unfolding weighted_sum_def by (rule sum_nonneg) (simp add: powers_nonneg)

lemma power_loop_refines:
  "power_loop (take 17 s) 0 (Some 0) = (if digits_upto 17 s then Some (weighted_sum s) else None)"
proof -
  have "(\<forall>k\<in>{0..<17}. k < length (take 17 s) \<and> is_digit (take 17 s ! k)) \<longleftrightarrow> digits_upto 17 s"
    by (auto simp: digits_upto_iff)
  moreover have "(\<Sum>k\<in>{0..<17}. int (digit_val (take 17 s ! k)) * powers ! k) = weighted_sum s"
    by (simp add: weighted_sum_def atLeast0LessThan)
  ultimately show ?thesis by (simp add: power_loop_sum)
qed

lemma getParityBit_spec:
  "getParityBit s = (if digits_upto 17 s then Some (parityBit ! nat (weighted_sum s mod 11)) else None)"
proof -
  have "0 \<le> weighted_sum s mod 11" and "weighted_sum s mod 11 < int (length parityBit)"
    by (simp_all add: parityBit_def)
  then show ?thesis
    by (simp add: getParityBit_def js_simps power_loop_refines js_mod_def js_index_def
        js_rem_nonneg weighted_sum_nonneg)
qed

lemma checkParityBit_spec:
  "checkParityBit s \<longleftrightarrow>
     digits_upto 17 s \<and> parityBit ! nat (weighted_sum s mod 11) = to_upper (char_at s 17)"
  by (simp add: checkParityBit_def getParityBit_spec)

subsection \<open>The tables are ISO 7064 MOD 11-2\<close>

lemma powers_iso: "k < 17 \<Longrightarrow> powers ! k = 2 ^ (17 - k) mod 11"
proof -
  have "list_all (\<lambda>k. powers ! k = 2 ^ (17 - k) mod 11) [0..<17]"
    unfolding powers_def by code_simp
  then show "k < 17 \<Longrightarrow> ?thesis" by (simp add: list_all_length)
qed


lemma parityBit_singleton:
  "r < 11 \<Longrightarrow> \<exists>c. parityBit ! r = [c] \<and> to_upper_char c = c \<and> (is_digit c \<or> c = CHR ''X'')"
proof -
  have "list_all (\<lambda>r. \<exists>c\<in>set ''0123456789X''. parityBit ! r = [c] \<and> to_upper_char c = c \<and>
          (is_digit c \<or> c = CHR ''X'')) [0..<11]"
    unfolding parityBit_def by code_simp
  then show "r < 11 \<Longrightarrow> ?thesis" by (auto simp: list_all_length)
qed

lemma getParityBit_digits:
  assumes "digits_upto 17 s"
  shows "\<exists>c. getParityBit s = Some [c] \<and> parityBit ! nat (weighted_sum s mod 11) = [c] \<and>
             to_upper_char c = c \<and> (is_digit c \<or> c = CHR ''X'')"
proof -
  have "nat (weighted_sum s mod 11) < 11" by simp
  then show ?thesis using assms parityBit_singleton by (simp add: getParityBit_spec)
qed

lemma parityBit_distinct: "distinct parityBit"
  by (simp add: parityBit_def)

subsection \<open>Error detection\<close>

lemma weighted_sum_update:
  assumes "i < 17" and "i < length s"
  shows "weighted_sum (s[i := c]) =
           weighted_sum s + (int (digit_val c) - int (digit_val (s ! i))) * powers ! i"
proof -
  let ?f = "\<lambda>t k. int (digit_val (t ! k)) * powers ! k"
  have i: "i \<in> {..<17::nat}" using assms by simp
  have rest: "(\<Sum>k\<in>{..<17} - {i}. ?f (s[i := c]) k) = (\<Sum>k\<in>{..<17} - {i}. ?f s k)"
    by (rule sum.cong) auto
  have "weighted_sum (s[i := c]) = ?f (s[i := c]) i + (\<Sum>k\<in>{..<17} - {i}. ?f (s[i := c]) k)"
    unfolding weighted_sum_def by (rule sum.remove [OF _ i]) simp
  moreover have "weighted_sum s = ?f s i + (\<Sum>k\<in>{..<17} - {i}. ?f s k)"
    unfolding weighted_sum_def by (rule sum.remove [OF _ i]) simp
  ultimately show ?thesis using assms(2) rest by (simp add: algebra_simps)
qed

lemma digit_val_inj: "is_digit a \<Longrightarrow> is_digit b \<Longrightarrow> digit_val a = digit_val b \<Longrightarrow> a = b"
proof -
  assume "is_digit a" "is_digit b" "digit_val a = digit_val b"
  then have "of_char a = (of_char b :: nat)" unfolding is_digit_def digit_val_def by linarith
  then show "a = b" by (metis char_of_char)
qed

lemma digit_val_bound: "is_digit a \<Longrightarrow> digit_val a \<le> 9"
  unfolding is_digit_def digit_val_def by linarith

lemma not_dvd_digit_diff:
  assumes "is_digit a" "is_digit b" "a \<noteq> b"
  shows "\<not> (11::int) dvd (int (digit_val a) - int (digit_val b))"
proof
  assume d: "(11::int) dvd (int (digit_val a) - int (digit_val b))"
  have "digit_val a \<noteq> digit_val b" using assms digit_val_inj by blast
  moreover have "digit_val a \<le> 9" "digit_val b \<le> 9" using assms digit_val_bound by auto
  ultimately show False using d by (auto elim!: dvdE) presburger
qed

lemma powers_coprime: "k < 17 \<Longrightarrow> coprime 11 (powers ! k)"
proof -
  have "list_all (\<lambda>k. coprime (11::int) (powers ! k)) [0..<17]"
    unfolding powers_def by code_simp
  then show "k < 17 \<Longrightarrow> ?thesis" by (simp add: list_all_length)
qed

lemma powers_adjacent_coprime: "Suc k < 17 \<Longrightarrow> coprime 11 (powers ! k - powers ! Suc k)"
proof -
  have "list_all (\<lambda>k. coprime (11::int) (powers ! k - powers ! Suc k)) [0..<16]"
    unfolding powers_def by code_simp
  then show "Suc k < 17 \<Longrightarrow> ?thesis" by (simp add: list_all_length)
qed

lemma parityBit_mod_inj:
  "parityBit ! nat (a mod 11) = parityBit ! nat (b mod 11) \<Longrightarrow> a mod 11 = b mod (11::int)"
proof -
  assume eq: "parityBit ! nat (a mod 11) = parityBit ! nat (b mod 11)"
  have "nat (a mod 11) < length parityBit" "nat (b mod 11) < length parityBit"
    by (simp_all add: parityBit_def)
  with eq parityBit_distinct have "nat (a mod 11) = nat (b mod 11)"
    by (simp add: nth_eq_iff_index_eq)
  then show ?thesis by simp
qed

lemma check_mod_dvd:
  assumes "checkParityBit s" and "checkParityBit t" and "char_at t 17 = char_at s 17"
  shows "(11::int) dvd (weighted_sum t - weighted_sum s)"
proof -
  have "parityBit ! nat (weighted_sum t mod 11) = parityBit ! nat (weighted_sum s mod 11)"
    using assms by (simp add: checkParityBit_spec)
  then have "weighted_sum t mod 11 = weighted_sum s mod 11" by (rule parityBit_mod_inj)
  then show ?thesis by (simp add: mod_eq_dvd_iff)
qed

lemma digits_upto_update: "digits_upto n s \<Longrightarrow> is_digit c \<Longrightarrow> digits_upto n (s[i := c])"
  unfolding digits_upto_iff by (metis length_list_update nth_list_update_eq nth_list_update_neq)

subsection \<open>Properties of the check\<close>


text \<open>C2: changing one of the first seventeen digits of a number that passes
  \<open>checkParityBit\<close> into another digit makes it fail: every single-digit error is
  detected.\<close>

theorem checkParityBit_detects_substitution:
  assumes ok: "checkParityBit s" and i: "i < 17" and c: "is_digit c" and ne: "c \<noteq> s ! i"
  shows "\<not> checkParityBit (s[i := c])"
proof
  assume ok': "checkParityBit (s[i := c])"
  have d: "digits_upto 17 s" using ok by (simp add: checkParityBit_spec)
  then have si: "i < length s" "is_digit (s ! i)" using digits_upto_nth i by blast+
  have "char_at (s[i := c]) 17 = char_at s 17" using i by (simp add: char_at_def nth_list_update)
  with ok ok' have "(11::int) dvd (weighted_sum (s[i := c]) - weighted_sum s)"
    by (rule check_mod_dvd)
  then have "(11::int) dvd (int (digit_val c) - int (digit_val (s ! i))) * powers ! i"
    using weighted_sum_update [OF i si(1)] by simp
  then have "(11::int) dvd (int (digit_val c) - int (digit_val (s ! i)))"
    using powers_coprime [OF i] by (simp add: coprime_dvd_mult_left_iff)
  with not_dvd_digit_diff [OF c si(2) ne] show False by contradiction
qed

text \<open>C3: swapping two adjacent different digits among the first seventeen of a number
  that passes \<open>checkParityBit\<close> makes it fail: every adjacent transposition is
  detected.\<close>

theorem checkParityBit_detects_transposition:
  assumes ok: "checkParityBit s" and i: "Suc i < 17" and ne: "s ! i \<noteq> s ! Suc i"
  shows "\<not> checkParityBit (s[i := s ! Suc i, Suc i := s ! i])"
proof
  let ?a = "s ! i" and ?b = "s ! Suc i"
  let ?t = "s[i := ?b]"
  assume ok': "checkParityBit (?t[Suc i := ?a])"
  have d: "digits_upto 17 s" using ok by (simp add: checkParityBit_spec)
  then have a: "i < length s" "is_digit ?a" and b: "Suc i < length s" "is_digit ?b"
    using digits_upto_nth i by (blast intro: Suc_lessD)+
  have t: "weighted_sum ?t = weighted_sum s + (int (digit_val ?b) - int (digit_val ?a)) * powers ! i"
    using weighted_sum_update [of i s ?b] i a(1) by simp
  have "weighted_sum (?t[Suc i := ?a]) =
          weighted_sum ?t + (int (digit_val ?a) - int (digit_val ?b)) * powers ! Suc i"
    using weighted_sum_update [of "Suc i" ?t ?a] i b(1) by simp
  with t have diff: "weighted_sum (?t[Suc i := ?a]) - weighted_sum s =
                      (int (digit_val ?b) - int (digit_val ?a)) * (powers ! i - powers ! Suc i)"
    by (simp add: algebra_simps)
  have "char_at (?t[Suc i := ?a]) 17 = char_at s 17" using i by (simp add: char_at_def nth_list_update)
  with ok ok' have "(11::int) dvd (weighted_sum (?t[Suc i := ?a]) - weighted_sum s)"
    by (rule check_mod_dvd)
  then have "(11::int) dvd (int (digit_val ?b) - int (digit_val ?a))"
    using powers_adjacent_coprime [OF i] diff by (simp add: coprime_dvd_mult_left_iff)
  moreover have "?b \<noteq> ?a" using ne by simp
  ultimately show False using not_dvd_digit_diff [OF b(2) a(2)] by blast
qed



subsection \<open>Witnesses\<close>

text \<open>The sample number of GB 11643-1999, 11010519491231002X, passes the check.\<close>

lemma sample_checkParityBit: "checkParityBit ''11010519491231002X''"
  by code_simp


lemma checkParityBit_detects_substitution_witness:
  "checkParityBit ''11010519491231002X'' \<and> is_digit CHR ''2'' \<and>
   \<not> checkParityBit (''11010519491231002X''[3 := CHR ''2''])"
proof -
  have c: "is_digit CHR ''2''" by (simp add: is_digit_def)
  have "\<not> checkParityBit (''11010519491231002X''[3 := CHR ''2''])"
    by (rule checkParityBit_detects_substitution [OF sample_checkParityBit _ c]) simp_all
  with c sample_checkParityBit show ?thesis by simp
qed

lemma checkParityBit_detects_transposition_witness:
  "checkParityBit ''11010519491231002X'' \<and>
   \<not> checkParityBit (''11010519491231002X''[2 := CHR ''1'', 3 := CHR ''0''])"
proof -
  have "\<not> checkParityBit (''11010519491231002X''[2 := ''11010519491231002X'' ! Suc 2,
            Suc 2 := ''11010519491231002X'' ! 2])"
    by (rule checkParityBit_detects_transposition [OF sample_checkParityBit, of 2]) simp_all
  with sample_checkParityBit show ?thesis by (simp add: numeral_eq_Suc)
qed


end
