(* ===== verification/Regex.thy ===== *)
theory Regex
  imports Prelude
begin

text \<open>
  The fragment of JavaScript regular expressions that src/js/idCardNoUtil.js uses:
  character classes (\<open>[1-9]\<close>, \<open>\d\<close>, a literal), concatenation, alternation
  \<open>|\<close>, counted repetition \<open>{n}\<close>, and the anchors \<open>^\<close> and \<open>$\<close> (no
  \<open>m\<close> flag, so they mean the start and the end of the input). \<open>ends r s i\<close> lists
  the positions at which a match of \<open>r\<close> that starts at position \<open>i\<close> of \<open>s\<close>
  can end; \<open>regex_test r s\<close> is \<open>RegExp.prototype.test\<close>, a search for a match
  at any start position. Backtracking order does not change the answer of \<open>test\<close>,
  so a list of all end positions is a faithful semantics. The inductive relation
  \<open>re_match\<close> is the reference semantics and \<open>ends_iff_re_match\<close> shows the
  executable matcher agrees with it. The last section characterises the regexes of the
  program by plain predicates on the characters of the string.
\<close>

datatype regex =
    Chars "(char \<times> char) list"   \<comment> \<open>a class of ranges \<open>[a-bc-d]\<close>\<close>
  | Seq regex regex
  | Alt regex regex
  | Bol                         \<comment> \<open>\<open>^\<close>\<close>
  | Eol                         \<comment> \<open>\<open>$\<close>\<close>
  | Empty

definition in_ranges :: "(char \<times> char) list \<Rightarrow> char \<Rightarrow> bool" where
  "in_ranges rs c = list_ex (\<lambda>(lo, hi). of_char lo \<le> (of_char c :: nat) \<and> of_char c \<le> (of_char hi :: nat)) rs"

fun ends :: "regex \<Rightarrow> string \<Rightarrow> nat \<Rightarrow> nat list" where
  "ends (Chars rs) s i = (if i < length s \<and> in_ranges rs (s ! i) then [Suc i] else [])"
| "ends (Seq a b) s i = concat (map (ends b s) (ends a s i))"
| "ends (Alt a b) s i = ends a s i @ ends b s i"
| "ends Bol s i = (if i = 0 then [i] else [])"
| "ends Eol s i = (if i = length s then [i] else [])"
| "ends Empty s i = [i]"

definition regex_test :: "regex \<Rightarrow> string \<Rightarrow> bool" where
  "regex_test r s = list_ex (\<lambda>i. ends r s i \<noteq> []) [0..<Suc (length s)]"

subsection \<open>Building the program's literals\<close>

primrec rep :: "regex \<Rightarrow> nat \<Rightarrow> regex" where
  \<comment> \<open>\<open>r{n}\<close>\<close>
  "rep r 0 = Empty"
| "rep r (Suc n) = Seq r (rep r n)"

definition seqs :: "regex list \<Rightarrow> regex" where
  "seqs rs = foldr Seq rs Empty"

definition lit :: "char \<Rightarrow> regex" where
  "lit c = Chars [(c, c)]"

definition rng :: "char \<Rightarrow> char \<Rightarrow> regex" where
  "rng a b = Chars [(a, b)]"

definition digit :: regex where
  \<comment> \<open>\<open>\d\<close>\<close>
  "digit = rng CHR ''0'' CHR ''9''"

subsection \<open>Reference semantics\<close>

inductive re_match :: "regex \<Rightarrow> string \<Rightarrow> nat \<Rightarrow> nat \<Rightarrow> bool" where
  m_chars: "i < length s \<Longrightarrow> in_ranges rs (s ! i) \<Longrightarrow> re_match (Chars rs) s i (Suc i)"
| m_seq: "re_match a s i j \<Longrightarrow> re_match b s j k \<Longrightarrow> re_match (Seq a b) s i k"
| m_alt1: "re_match a s i j \<Longrightarrow> re_match (Alt a b) s i j"
| m_alt2: "re_match b s i j \<Longrightarrow> re_match (Alt a b) s i j"
| m_bol: "re_match Bol s 0 0"
| m_eol: "re_match Eol s (length s) (length s)"
| m_empty: "re_match Empty s i i"

inductive_cases re_match_elims:
  "re_match (Chars rs) s i j"
  "re_match (Seq a b) s i j"
  "re_match (Alt a b) s i j"
  "re_match Bol s i j"
  "re_match Eol s i j"
  "re_match Empty s i j"

lemma ends_sound: "j \<in> set (ends r s i) \<Longrightarrow> re_match r s i j"
proof (induction r arbitrary: i j)
  case (Seq a b)
  then obtain k where "k \<in> set (ends a s i)" and "j \<in> set (ends b s k)" by auto
  with Seq.IH show ?case by (blast intro: m_seq)
qed (auto split: if_splits intro: re_match.intros)

lemma ends_complete: "re_match r s i j \<Longrightarrow> j \<in> set (ends r s i)"
  by (induction rule: re_match.induct) auto

lemma ends_iff_re_match: "j \<in> set (ends r s i) \<longleftrightarrow> re_match r s i j"
  using ends_sound ends_complete by blast

lemma regex_test_iff_re_match: "regex_test r s \<longleftrightarrow> (\<exists>i\<le>length s. \<exists>j. re_match r s i j)"
proof -
  have "ends r s i \<noteq> [] \<longleftrightarrow> (\<exists>j. re_match r s i j)" for i
    by (metis ends_iff_re_match ex_in_conv set_empty)
  moreover have "set [0..<Suc (length s)] = {..length s}" by auto
  ultimately show ?thesis unfolding regex_test_def list_ex_iff by auto
qed

subsection \<open>Fixed-width pieces\<close>

text \<open>
  Every regex of the program matches a fixed number of characters. The lemmas below
  compute \<open>ends\<close> of such pieces as \<open>[]\<close> or the single end position, which
  lets the simplifier evaluate a whole literal on a symbolic string.
\<close>

lemma ends_rep_chars:
  "ends (rep (Chars rs) n) s i =
     (if \<forall>k<n. i + k < length s \<and> in_ranges rs (s ! (i + k)) then [i + n] else [])"
proof (induction n arbitrary: i)
  case 0
  then show ?case by simp
next
  case (Suc n)
  have "(\<forall>k<Suc n. i + k < length s \<and> in_ranges rs (s ! (i + k))) \<longleftrightarrow>
        (i < length s \<and> in_ranges rs (s ! i)) \<and>
        (\<forall>k<n. Suc i + k < length s \<and> in_ranges rs (s ! (Suc i + k)))"
    by (auto simp: less_Suc_eq_0_disj)
  with Suc show ?case by auto
qed

lemma ends_seqs_Cons [simp]: "ends (seqs (r # rs)) s i = concat (map (ends (seqs rs) s) (ends r s i))"
  by (simp add: seqs_def)

lemma ends_seqs_Nil [simp]: "ends (seqs []) s i = [i]"
  by (simp add: seqs_def)

lemma concat_map_if_single [simp]:
  "concat (map f (if P then [x] else [])) = (if P then f x else [])"
  by simp

lemma regex_test_anchored:
  "regex_test (seqs (Bol # rs @ [Eol])) s \<longleftrightarrow> length s \<in> set (ends (seqs rs) s 0)"
proof -
  have seqs_app: "ends (seqs (rs @ [Eol])) s = (\<lambda>i. filter (\<lambda>j. j = length s) (ends (seqs rs) s i))"
  proof (induction rs)
    case (Cons r rs)
    then show ?case by (simp add: filter_concat comp_def)
  qed (simp add: fun_eq_iff)
  show ?thesis
    by (auto simp: regex_test_def seqs_app list_ex_iff filter_empty_conv)
qed

end
