(* ===== verification/JsDate.thy ===== *)
theory JsDate
  imports Prelude
begin

text \<open>
  The part of the ECMAScript \<open>Date\<close> object that \<open>checkBirthDayCode\<close> uses:
  \<open>new Date(y, m, d)\<close> with a 0-based month, the getters \<open>getFullYear\<close>,
  \<open>getMonth\<close>, \<open>getDate\<close>, and the comparison \<open>\<greater>\<close> of two dates. A date is
  kept as its broken-down local fields (proleptic Gregorian calendar) and its time of
  day in milliseconds; the constructor builds a value at local midnight. ECMAScript's
  \<open>MakeDay\<close> lets the month overflow into the year and the day overflow into the
  following (or preceding) months; \<open>norm_day\<close> is that carry, one month per step.
  The current time \<open>new Date()\<close> is an argument \<open>now\<close> of the functions that
  read the clock. Time zones and daylight-saving shifts are not modelled.
\<close>

record js_date =
  date_year :: int
  date_month :: int  \<comment> \<open>0..11\<close>
  date_day :: int    \<comment> \<open>1..31\<close>
  date_time :: int   \<comment> \<open>milliseconds since local midnight\<close>

definition leap_year :: "int \<Rightarrow> bool" where
  "leap_year y \<longleftrightarrow> (4 dvd y \<and> \<not> 100 dvd y) \<or> 400 dvd y"

definition days_in_month :: "int \<Rightarrow> int \<Rightarrow> int" where
  \<comment> \<open>the month is 0-based, as in JavaScript\<close>
  "days_in_month y m =
     (if m = 1 then (if leap_year y then 29 else 28)
      else if m = 3 \<or> m = 5 \<or> m = 8 \<or> m = 10 then 30 else 31)"

lemma days_in_month_bounds: "28 \<le> days_in_month y m \<and> days_in_month y m \<le> 31"
  by (simp add: days_in_month_def)

definition day_measure :: "int \<Rightarrow> nat" where
  "day_measure d = (if d < 1 then nat (1 - d) + 100 else nat d)"

lemma day_measure_back: "d < 1 \<Longrightarrow> 28 \<le> k \<Longrightarrow> k \<le> 31 \<Longrightarrow> day_measure (d + k) < day_measure d"
  by (simp add: day_measure_def nat_less_iff)

lemma day_measure_fwd: "k < d \<Longrightarrow> 28 \<le> k \<Longrightarrow> day_measure (d - k) < day_measure d"
  by (simp add: day_measure_def)

function norm_day :: "int \<Rightarrow> int \<Rightarrow> int \<Rightarrow> int \<times> int \<times> int" where
  "norm_day y m d =
     (if d < 1 then
        (if m = 0 then norm_day (y - 1) 11 (d + days_in_month (y - 1) 11)
         else norm_day y (m - 1) (d + days_in_month y (m - 1)))
      else if days_in_month y m < d then
        (if m = 11 then norm_day (y + 1) 0 (d - days_in_month y m)
         else norm_day y (m + 1) (d - days_in_month y m))
      else (y, m, d))"
  by pat_completeness auto
termination
  by (relation "measure (\<lambda>(y, m, d). day_measure d)")
     (use days_in_month_bounds in \<open>auto intro: day_measure_back day_measure_fwd\<close>)

declare norm_day.simps [simp del]

definition make_full_year :: "int \<Rightarrow> int" where
  \<comment> \<open>the year argument of the \<open>Date\<close> constructor: 0..99 mean 1900..1999\<close>
  "make_full_year y = (if 0 \<le> y \<and> y \<le> 99 then 1900 + y else y)"

definition new_date :: "int \<Rightarrow> int \<Rightarrow> int \<Rightarrow> js_date" where
  \<comment> \<open>\<open>new Date(y, m, d)\<close>: years 0..99 mean 1900..1999; the month carries into the
      year, the day into the months\<close>
  "new_date y m d =
     (let yr = make_full_year y;
          (y', m', d') = norm_day (yr + m div 12) (m mod 12) d
      in \<lparr>date_year = y', date_month = m', date_day = d', date_time = 0\<rparr>)"

definition date_key :: "js_date \<Rightarrow> int \<times> int \<times> int \<times> int" where
  "date_key t = (date_year t, date_month t, date_day t, date_time t)"

definition date_after :: "js_date \<Rightarrow> js_date \<Rightarrow> bool" where
  \<comment> \<open>\<open>a > b\<close> on two dates: their time values compared, which is the order of the fields\<close>
  "date_after a b \<longleftrightarrow> date_key b < date_key a"

definition valid_ymd :: "int \<Rightarrow> int \<Rightarrow> int \<Rightarrow> bool" where
  \<comment> \<open>a real calendar day, month 0-based\<close>
  "valid_ymd y m d \<longleftrightarrow> 0 \<le> m \<and> m \<le> 11 \<and> 1 \<le> d \<and> d \<le> days_in_month y m"

subsection \<open>Time values\<close>

text \<open>
  ECMAScript represents a date by its time value, milliseconds since 1970-01-01, and
  compares dates with \<open>\<greater>\<close> on time values. \<open>day_from_year\<close> is the specification's
  \<open>DayFromYear\<close>, \<open>month_start\<close> the first day of a month within its year,
  \<open>make_day\<close> is \<open>MakeDay\<close> (the month carried into the year, the day counted from
  the first of the month, so a day out of the month's range lands in another month), and
  \<open>time_value\<close> is \<open>MakeDate(MakeDay(...), time)\<close>.
\<close>

definition ms_per_day :: int where
  "ms_per_day = 86400000"

definition day_from_year :: "int \<Rightarrow> int" where
  "day_from_year y = 365 * (y - 1970) + (y - 1969) div 4 - (y - 1901) div 100 + (y - 1601) div 400"

definition days_in_year :: "int \<Rightarrow> int" where
  "days_in_year y = (if leap_year y then 366 else 365)"

definition month_start :: "int \<Rightarrow> int \<Rightarrow> int" where
  "month_start y m = (\<Sum>k<nat m. days_in_month y (int k))"

definition make_day :: "int \<Rightarrow> int \<Rightarrow> int \<Rightarrow> int" where
  "make_day y m d = day_from_year (y + m div 12) + month_start (y + m div 12) (m mod 12) + d - 1"

definition time_value :: "js_date \<Rightarrow> int" where
  "time_value t = make_day (date_year t) (date_month t) (date_day t) * ms_per_day + date_time t"

definition valid_date :: "js_date \<Rightarrow> bool" where
  \<comment> \<open>a normalised \<open>Date\<close>: a real calendar day and a time of day within the day\<close>
  "valid_date t \<longleftrightarrow>
     valid_ymd (date_year t) (date_month t) (date_day t) \<and> 0 \<le> date_time t \<and> date_time t < ms_per_day"

subsection \<open>Normalisation\<close>

lemma norm_day_valid_input: "valid_ymd y m d \<Longrightarrow> norm_day y m d = (y, m, d)"
  by (subst norm_day.simps) (simp add: valid_ymd_def)

lemma norm_day_valid: "0 \<le> m \<Longrightarrow> m \<le> 11 \<Longrightarrow> norm_day y m d = (y', m', d') \<Longrightarrow> valid_ymd y' m' d'"
proof (induction y m d rule: norm_day.induct)
  case (1 y m d)
  show ?case
  proof (cases "d < 1 \<or> days_in_month y m < d")
    case True
    with "1.prems" show ?thesis
      by (subst (asm) norm_day.simps) (auto split: if_splits intro: "1.IH")
  next
    case False
    with "1.prems" show ?thesis
      by (subst (asm) norm_day.simps) (auto simp: valid_ymd_def)
  qed
qed

lemma new_date_valid:
  assumes "\<not> (0 \<le> y \<and> y \<le> 99)" and "valid_ymd y m d"
  shows "new_date y m d = \<lparr>date_year = y, date_month = m, date_day = d, date_time = 0\<rparr>"
proof -
  have "m div 12 = 0" and "m mod 12 = m" and "make_full_year y = y"
    using assms by (simp_all add: valid_ymd_def make_full_year_def)
  then show ?thesis using assms(2) by (simp add: new_date_def norm_day_valid_input)
qed

lemma new_date_fields:
  assumes "\<not> (0 \<le> y \<and> y \<le> 99)" and "0 \<le> m" and "m \<le> 11"
  shows "(date_year (new_date y m d) = y \<and> date_month (new_date y m d) = m \<and>
          date_day (new_date y m d) = d) \<longleftrightarrow> valid_ymd y m d"
proof -
  obtain y' m' d' where n: "norm_day y m d = (y', m', d')" by (cases "norm_day y m d")
  have "m div 12 = 0" and "m mod 12 = m" using assms(2,3) by simp_all
  moreover have "make_full_year y = y" using assms(1) by (simp add: make_full_year_def)
  ultimately have "new_date y m d = \<lparr>date_year = y', date_month = m', date_day = d', date_time = 0\<rparr>"
    using assms(1) n by (simp add: new_date_def Let_def)
  moreover have "valid_ymd y' m' d'" using assms n by (blast intro: norm_day_valid)
  moreover have "valid_ymd y m d \<Longrightarrow> (y', m', d') = (y, m, d)"
    using n by (simp add: norm_day_valid_input)
  ultimately show ?thesis by auto
qed

subsection \<open>The broken-down fields and the time value\<close>

lemma div_plus1:
  fixes a n :: int
  assumes "1 < n"
  shows "(a + 1) div n = a div n + (if n dvd (a + 1) then 1 else 0)"
proof -
  have m: "0 \<le> a mod n" "a mod n < n" using assms by simp_all
  have s: "(a + 1) div n = a div n + (a mod n + 1) div n"
    using assms by (simp add: div_add1_eq [of a 1 n] mod_pos_pos_trivial div_pos_pos_trivial)
  have r: "(a + 1) mod n = (a mod n + 1) mod n" by (simp add: mod_add_left_eq)
  show ?thesis
  proof (cases "a mod n + 1 = n")
    case True
    with s r assms show ?thesis by (simp add: dvd_eq_mod_eq_0)
  next
    case False
    with m have "a mod n + 1 < n" by simp
    with s r m show ?thesis by (simp add: dvd_eq_mod_eq_0 div_pos_pos_trivial mod_pos_pos_trivial)
  qed
qed

lemma dvd_shift: "(4::int) dvd (y - 1968) \<longleftrightarrow> 4 dvd y" "(100::int) dvd (y - 1900) \<longleftrightarrow> 100 dvd y"
  "(400::int) dvd (y - 1600) \<longleftrightarrow> 400 dvd y"
proof -
  have "y - 1968 = y + 4 * (-492)" "y - 1900 = y + 100 * (-19)" "y - 1600 = y + 400 * (-4)" by simp_all
  then show "(4::int) dvd (y - 1968) \<longleftrightarrow> 4 dvd y" "(100::int) dvd (y - 1900) \<longleftrightarrow> 100 dvd y"
    "(400::int) dvd (y - 1600) \<longleftrightarrow> 400 dvd y"
    by (simp_all only: dvd_add_left_iff dvd_triv_left)
qed

lemma day_from_year_succ: "day_from_year (y + 1) = day_from_year y + days_in_year y"
proof -
  have "y + 1 - 1969 = (y - 1969) + 1" "y + 1 - 1901 = (y - 1901) + 1" "y + 1 - 1601 = (y - 1601) + 1"
    "(y - 1969) + 1 = y - 1968" "(y - 1901) + 1 = y - 1900" "(y - 1601) + 1 = y - 1600" by simp_all
  then have "day_from_year (y + 1) = day_from_year y + 365 + (if 4 dvd y then 1 else 0) -
               (if 100 dvd y then 1 else 0) + (if 400 dvd y then 1 else 0)"
    using div_plus1 [of 4 "y - 1969"] div_plus1 [of 100 "y - 1901"] div_plus1 [of 400 "y - 1601"]
    by (simp add: day_from_year_def dvd_shift)
  moreover have "400 dvd y \<Longrightarrow> 100 dvd y" "100 dvd y \<Longrightarrow> 4 dvd y"
    by (rule dvd_trans [of _ 400], simp, assumption) (rule dvd_trans [of _ 100], simp, assumption)
  ultimately show ?thesis by (auto simp: days_in_year_def leap_year_def)
qed

lemma day_from_year_mono: "y \<le> y' \<Longrightarrow> day_from_year y \<le> day_from_year y'"
proof (induction y' rule: int_ge_induct)
  case (step y')
  then show ?case using day_from_year_succ [of y'] by (simp add: days_in_year_def)
qed simp

lemma month_start_succ: "0 \<le> m \<Longrightarrow> month_start y (m + 1) = month_start y m + days_in_month y m"
proof -
  assume "0 \<le> m"
  then have "nat (m + 1) = Suc (nat m)" by simp
  with \<open>0 \<le> m\<close> show ?thesis by (simp add: month_start_def)
qed

lemma month_start_zero [simp]: "month_start y 0 = 0"
  by (simp add: month_start_def)

lemma month_start_year: "month_start y 11 + days_in_month y 11 = days_in_year y"
  by (simp add: month_start_def days_in_month_def days_in_year_def lessThan_Suc numeral_eq_Suc)

lemma month_start_less:
  assumes "0 \<le> m" and "m < m'"
  shows "month_start y m + days_in_month y m \<le> month_start y m'"
proof -
  have "month_start y m + days_in_month y m = month_start y (m + 1)"
    using month_start_succ [OF assms(1)] by simp
  also have "\<dots> \<le> month_start y m'"
    unfolding month_start_def
  proof (rule sum_mono2)
    show "{..<nat (m + 1)} \<subseteq> {..<nat m'}" using assms by auto
    show "0 \<le> days_in_month y (int k)" for k
      using days_in_month_bounds [of y "int k"] by linarith
  qed simp
  finally show ?thesis .
qed

lemma make_day_in_year:
  "0 \<le> m \<Longrightarrow> m \<le> 11 \<Longrightarrow> make_day y m d = day_from_year y + month_start y m + d - 1"
  by (simp add: make_day_def)

text \<open>\<open>norm_day\<close> keeps the day that \<open>MakeDay\<close> denotes: the carries move between
  months without changing the time value.\<close>

lemma norm_day_make_day:
  "0 \<le> m \<Longrightarrow> m \<le> 11 \<Longrightarrow> norm_day y m d = (y', m', d') \<Longrightarrow> make_day y' m' d' = make_day y m d"
proof (induction y m d rule: norm_day.induct)
  case (1 y m d)
  note IH = "1.IH" and m = "1.prems"(1,2) and r = "1.prems"(3)
  consider (a) "d < 1" "m = 0" | (b) "d < 1" "m \<noteq> 0" | (c) "\<not> d < 1" "days_in_month y m < d" "m = 11"
    | (e) "\<not> d < 1" "days_in_month y m < d" "m \<noteq> 11" | (f) "\<not> d < 1" "\<not> days_in_month y m < d"
    by blast
  then show ?case
  proof cases
    case a
    from r a have "norm_day (y - 1) 11 (d + days_in_month (y - 1) 11) = (y', m', d')"
      by (subst (asm) norm_day.simps) simp
    with a IH(1) have "make_day y' m' d' = make_day (y - 1) 11 (d + days_in_month (y - 1) 11)" by simp
    also have "\<dots> = make_day y m d"
      using a month_start_year [of "y - 1"] day_from_year_succ [of "y - 1"] by (simp add: make_day_in_year)
    finally show ?thesis .
  next
    case b
    from r b have "norm_day y (m - 1) (d + days_in_month y (m - 1)) = (y', m', d')"
      by (subst (asm) norm_day.simps) simp
    with b m IH(2) have "make_day y' m' d' = make_day y (m - 1) (d + days_in_month y (m - 1))" by simp
    also have "\<dots> = make_day y m d"
      using b m month_start_succ [of "m - 1" y] by (simp add: make_day_in_year)
    finally show ?thesis .
  next
    case c
    from r c have "norm_day (y + 1) 0 (d - days_in_month y m) = (y', m', d')"
      by (subst (asm) norm_day.simps) simp
    with c IH(3) have "make_day y' m' d' = make_day (y + 1) 0 (d - days_in_month y m)" by simp
    also have "\<dots> = make_day y m d"
      using c month_start_year [of y] day_from_year_succ [of y] by (simp add: make_day_in_year)
    finally show ?thesis .
  next
    case e
    from r e have "norm_day y (m + 1) (d - days_in_month y m) = (y', m', d')"
      by (subst (asm) norm_day.simps) simp
    with e m IH(4) have "make_day y' m' d' = make_day y (m + 1) (d - days_in_month y m)" by simp
    also have "\<dots> = make_day y m d"
      using e m month_start_succ [of m y] by (simp add: make_day_in_year)
    finally show ?thesis .
  next
    case f
    with r show ?thesis by (subst (asm) norm_day.simps) simp
  qed
qed

lemma make_day_valid_bounds:
  assumes "valid_ymd y m d"
  shows "day_from_year y \<le> make_day y m d \<and> make_day y m d < day_from_year (y + 1)"
proof -
  from assms have m: "0 \<le> m" "m \<le> 11" and d: "1 \<le> d" "d \<le> days_in_month y m"
    by (simp_all add: valid_ymd_def)
  have "0 \<le> month_start y m" unfolding month_start_def
    using days_in_month_bounds by (simp add: sum_nonneg order_trans [of 0 28])
  moreover have "month_start y m + days_in_month y m \<le> days_in_year y"
  proof (cases "m = 11")
    case True then show ?thesis using month_start_year [of y] by simp
  next
    case False
    with m have "month_start y m + days_in_month y m \<le> month_start y 11" by (simp add: month_start_less)
    then show ?thesis using month_start_year [of y] days_in_month_bounds [of y 11] by linarith
  qed
  ultimately show ?thesis using m d day_from_year_succ [of y] by (simp add: make_day_in_year)
qed

lemma make_day_strict:
  assumes "valid_ymd y m d" and "valid_ymd y' m' d'" and "(y, m, d) < (y', m', d')"
  shows "make_day y m d < make_day y' m' d'"
proof -
  consider "y < y'" | "y = y'" "m < m'" | "y = y'" "m = m'" "d < d'"
    using assms(3) by (auto simp: less_prod_def le_less)
  then show ?thesis
  proof cases
    case 1
    then have "day_from_year (y + 1) \<le> day_from_year y'" by (simp add: day_from_year_mono)
    then show ?thesis using make_day_valid_bounds [OF assms(1)] make_day_valid_bounds [OF assms(2)] by linarith
  next
    case 2
    with assms(1,2) have "month_start y m + days_in_month y m \<le> month_start y m'"
      by (simp add: month_start_less valid_ymd_def)
    with 2 assms(1,2) show ?thesis by (simp add: make_day_in_year valid_ymd_def)
  next
    case 3
    with assms(1) show ?thesis by (simp add: make_day_in_year valid_ymd_def)
  qed
qed

lemma day_ms_less:
  assumes "k < k'" and "0 \<le> t" and "t < ms_per_day" and "0 \<le> t'"
  shows "k * ms_per_day + t < k' * ms_per_day + t'"
proof -
  have "(k + 1) * ms_per_day \<le> k' * ms_per_day"
    using assms(1) by (simp add: ms_per_day_def mult_right_mono)
  then show ?thesis using assms(2-4) by (simp add: algebra_simps)
qed

text \<open>On normalised dates, the order of the broken-down fields is the order of the time
  values, so \<open>date_after\<close> is ECMAScript's \<open>\<greater>\<close> on dates.\<close>

lemma date_key_time_value:
  assumes "valid_date a" and "valid_date b"
  shows "date_key a \<le> date_key b \<longleftrightarrow> time_value a \<le> time_value b"
proof -
  let ?a = "(date_year a, date_month a, date_day a)" and ?b = "(date_year b, date_month b, date_day b)"
  have key: "date_key a \<le> date_key b \<longleftrightarrow> ?a < ?b \<or> (?a = ?b \<and> date_time a \<le> date_time b)"
    by (auto simp: date_key_def less_eq_prod_def less_prod_def)
  consider "?a < ?b" | "?a = ?b" | "?b < ?a" by (meson not_less_iff_gr_or_eq)
  then show ?thesis
  proof cases
    case 1
    then have "make_day (date_year a) (date_month a) (date_day a) < make_day (date_year b) (date_month b) (date_day b)"
      using assms by (simp add: make_day_strict valid_date_def)
    then show ?thesis using 1 assms key day_ms_less by (simp add: time_value_def valid_date_def less_imp_le)
  next
    case 2
    then show ?thesis using key by (simp add: time_value_def)
  next
    case 3
    then have "make_day (date_year b) (date_month b) (date_day b) < make_day (date_year a) (date_month a) (date_day a)"
      using assms by (simp add: make_day_strict valid_date_def)
    then have "time_value b < time_value a"
      using assms day_ms_less by (simp add: time_value_def valid_date_def)
    then show ?thesis using 3 key by auto
  qed
qed

lemma new_date_valid_date: "valid_date (new_date y m d)"
proof -
  obtain y' m' d' where n: "norm_day (make_full_year y + m div 12) (m mod 12) d = (y', m', d')"
    by (cases "norm_day (make_full_year y + m div 12) (m mod 12) d") auto
  then have "valid_ymd y' m' d'" by (rule norm_day_valid [rotated 2]) simp_all
  with n show ?thesis by (simp add: new_date_def valid_date_def ms_per_day_def)
qed

text \<open>\<open>new Date(y, m, d)\<close> has the time value \<open>MakeDate(MakeDay(y, m, d), 0)\<close>.\<close>

lemma new_date_time_value: "time_value (new_date y m d) = make_day (make_full_year y) m d * ms_per_day"
proof -
  obtain y' m' d' where n: "norm_day (make_full_year y + m div 12) (m mod 12) d = (y', m', d')"
    by (cases "norm_day (make_full_year y + m div 12) (m mod 12) d") auto
  then have "make_day y' m' d' = make_day (make_full_year y + m div 12) (m mod 12) d"
    by (rule norm_day_make_day [rotated 2]) simp_all
  also have "\<dots> = make_day (make_full_year y) m d" by (simp add: make_day_def)
  finally show ?thesis using n by (simp add: new_date_def time_value_def)
qed

lemma date_after_time_value:
  assumes "valid_date now"
  shows "date_after (new_date y m d) now \<longleftrightarrow> time_value now < make_day (make_full_year y) m d * ms_per_day"
  using date_key_time_value [OF new_date_valid_date [of y m d] assms]
  by (simp add: date_after_def new_date_time_value not_le [symmetric])

end
