(* ===== verification/IdCardCheck.thy ===== *)
theory IdCardCheck
  imports Checksum Regex JsDate
begin

text \<open>
  The validating methods of \<open>idCardNoUtil\<close> (src/js/idCardNoUtil.js):
  \<open>checkAddressCode\<close>, \<open>checkBirthDayCode\<close>, \<open>check15IdCardNo\<close>,
  \<open>check18IdCardNo\<close> and the entry point \<open>checkIdCardNo\<close>, with the table
  \<open>provinceAndCitys\<close> and the regular-expression literals they test. The clock read
  by \<open>new Date()\<close> is the argument \<open>now\<close>. The region names of the table are
  written in pinyin; the code only tests that the looked-up name is a non-empty string.
  The lemmas characterise each regex by conditions on the characters, then each check
  by the conditions it accepts, branch by branch.
\<close>

definition provinceAndCitys :: "int \<rightharpoonup> string" where
  "provinceAndCitys = map_of
     [(11, ''Beijing''), (12, ''Tianjin''), (13, ''Hebei''), (14, ''Shanxi''), (15, ''Neimenggu''),
      (21, ''Liaoning''), (22, ''Jilin''), (23, ''Heilongjiang''),
      (31, ''Shanghai''), (32, ''Jiangsu''), (33, ''Zhejiang''), (34, ''Anhui''), (35, ''Fujian''),
      (36, ''Jiangxi''), (37, ''Shandong''),
      (41, ''Henan''), (42, ''Hubei''), (43, ''Hunan''), (44, ''Guangdong''), (45, ''Guangxi''),
      (46, ''Hainan''),
      (50, ''Chongqing''), (51, ''Sichuan''), (52, ''Guizhou''), (53, ''Yunnan''), (54, ''Xizang''),
      (61, ''Shaanxi''), (62, ''Gansu''), (63, ''Qinghai''), (64, ''Ningxia''), (65, ''Xinjiang''),
      (71, ''Taiwan''),
      (81, ''Xianggang''), (82, ''Aomen''),
      (91, ''Guowai'')]"

subsection \<open>The regular-expression literals\<close>

definition re_month :: regex where
  \<comment> \<open>\<open>((0[1-9])|(1[0-2]))\<close>\<close>
  "re_month = Alt (seqs [lit CHR ''0'', rng CHR ''1'' CHR ''9''])
                  (seqs [lit CHR ''1'', rng CHR ''0'' CHR ''2''])"

definition re_day :: regex where
  \<comment> \<open>\<open>((0[1-9])|([1-2][0-9])|(3[0-1]))\<close>\<close>
  "re_day = Alt (seqs [lit CHR ''0'', rng CHR ''1'' CHR ''9''])
              (Alt (seqs [rng CHR ''1'' CHR ''2'', rng CHR ''0'' CHR ''9''])
                   (seqs [lit CHR ''3'', rng CHR ''0'' CHR ''1'']))"

definition re_check_char :: regex where
  \<comment> \<open>\<open>(\d|x|X)\<close>\<close>
  "re_check_char = Alt digit (Alt (lit CHR ''x'') (lit CHR ''X''))"

definition re_address :: regex where
  \<comment> \<open>\<open>/^[1-9]\d{5}$/\<close>\<close>
  "re_address = seqs [Bol, rng CHR ''1'' CHR ''9'', rep digit 5, Eol]"

definition re_birthday :: regex where
  \<comment> \<open>\<open>/^[1-9]\d{3}((0[1-9])|(1[0-2]))((0[1-9])|([1-2][0-9])|(3[0-1]))$/\<close>\<close>
  "re_birthday = seqs [Bol, rng CHR ''1'' CHR ''9'', rep digit 3, re_month, re_day, Eol]"

definition re_id_basic :: regex where
  \<comment> \<open>\<open>/^\d{15}|(\d{17}(\d|x|X))$/\<close>: the alternation binds weaker than the anchors\<close>
  "re_id_basic = Alt (seqs [Bol, rep digit 15]) (seqs [rep digit 17, re_check_char, Eol])"

definition re_id15 :: regex where
  \<comment> \<open>\<open>/^[1-9]\d{7}((0[1-9])|(1[0-2]))((0[1-9])|([1-2][0-9])|(3[0-1]))\d{3}$/\<close>\<close>
  "re_id15 = seqs [Bol, rng CHR ''1'' CHR ''9'', rep digit 7, re_month, re_day, rep digit 3, Eol]"

definition re_id18 :: regex where
  \<comment> \<open>\<open>/^[1-9]\d{5}[1-9]\d{3}((0[1-9])|(1[0-2]))((0[1-9])|([1-2][0-9])|(3[0-1]))\d{3}(\d|x|X)$/\<close>\<close>
  "re_id18 = seqs [Bol, rng CHR ''1'' CHR ''9'', rep digit 5, rng CHR ''1'' CHR ''9'', rep digit 3,
                   re_month, re_day, rep digit 3, re_check_char, Eol]"

subsection \<open>The checks\<close>

definition checkAddressCode :: "string \<Rightarrow> bool" where
  "checkAddressCode addressCode =
     (if \<not> regex_test re_address addressCode then False
      else (case parse_int (js_substring addressCode 0 2) of
              None \<Rightarrow> False
            | Some k \<Rightarrow> (case provinceAndCitys k of None \<Rightarrow> False | Some name \<Rightarrow> name \<noteq> [])))"

definition checkBirthDayCode :: "js_date \<Rightarrow> string \<Rightarrow> bool" where
  "checkBirthDayCode now birDayCode =
     (if \<not> regex_test re_birthday birDayCode then False
      else (case (parse_int (js_substring birDayCode 0 4), parse_int (js_substring birDayCode 4 6),
                  parse_int (js_substring_from birDayCode 6)) of
              (Some yyyy, Some mm, Some dd) \<Rightarrow>
                (let xdata = new_date yyyy (mm - 1) dd
                 in if date_after xdata now then False
                    else date_year xdata = yyyy \<and> date_month xdata = mm - 1 \<and> date_day xdata = dd)
            | _ \<Rightarrow> False))"

definition check15IdCardNo :: "js_date \<Rightarrow> string \<Rightarrow> bool" where
  "check15IdCardNo now idCardNo =
     (if \<not> regex_test re_id15 idCardNo then False
      else if \<not> checkAddressCode (js_substring idCardNo 0 6) then False
      else checkBirthDayCode now (''19'' @ js_substring idCardNo 6 12))"

definition check18IdCardNo :: "js_date \<Rightarrow> string \<Rightarrow> bool" where
  "check18IdCardNo now idCardNo =
     (if \<not> regex_test re_id18 idCardNo then False
      else if \<not> checkAddressCode (js_substring idCardNo 0 6) then False
      else if \<not> checkBirthDayCode now (js_substring idCardNo 6 14) then False
      else checkParityBit idCardNo)"

definition checkIdCardNo :: "js_date \<Rightarrow> string \<Rightarrow> bool" where
  "checkIdCardNo now idCardNo =
     (if \<not> regex_test re_id_basic idCardNo then False
      else if length idCardNo = 15 then check15IdCardNo now idCardNo
      else if length idCardNo = 18 then check18IdCardNo now idCardNo
      else False)"

subsection \<open>Conditions on characters\<close>

text \<open>What the regular expressions and the date test accept, stated on the characters.\<close>

definition nz_digit :: "char \<Rightarrow> bool" where
  "nz_digit c \<longleftrightarrow> is_digit c \<and> c \<noteq> CHR ''0''"

definition two_digit_val :: "char \<Rightarrow> char \<Rightarrow> nat" where
  "two_digit_val a b = 10 * digit_val a + digit_val b"

definition month_ok :: "char \<Rightarrow> char \<Rightarrow> bool" where
  "month_ok a b \<longleftrightarrow> is_digit a \<and> is_digit b \<and> 1 \<le> two_digit_val a b \<and> two_digit_val a b \<le> 12"

definition day_ok :: "char \<Rightarrow> char \<Rightarrow> bool" where
  "day_ok a b \<longleftrightarrow> is_digit a \<and> is_digit b \<and> 1 \<le> two_digit_val a b \<and> two_digit_val a b \<le> 31"

definition check_char_ok :: "char \<Rightarrow> bool" where
  "check_char_ok c \<longleftrightarrow> is_digit c \<or> c = CHR ''x'' \<or> c = CHR ''X''"

definition birth_year :: "string \<Rightarrow> int" where
  "birth_year b = int (digits_val (take 4 b))"

definition birth_month :: "string \<Rightarrow> int" where
  "birth_month b = int (two_digit_val (b ! 4) (b ! 5))"

definition birth_day :: "string \<Rightarrow> int" where
  "birth_day b = int (two_digit_val (b ! 6) (b ! 7))"

definition birth_ok :: "js_date \<Rightarrow> string \<Rightarrow> bool" where
  \<comment> \<open>a real calendar day, not after the current day\<close>
  "birth_ok now b \<longleftrightarrow>
     valid_ymd (birth_year b) (birth_month b - 1) (birth_day b) \<and>
     (birth_year b, birth_month b - 1, birth_day b, 0) \<le> date_key now"

definition id15_shape :: "string \<Rightarrow> bool" where
  "id15_shape s \<longleftrightarrow>
     length s = 15 \<and> nz_digit (s ! 0) \<and> (\<forall>k<7. is_digit (s ! Suc k)) \<and>
     month_ok (s ! 8) (s ! 9) \<and> day_ok (s ! 10) (s ! 11) \<and> (\<forall>k<3. is_digit (s ! (k + 12)))"

definition id18_shape :: "string \<Rightarrow> bool" where
  "id18_shape s \<longleftrightarrow>
     length s = 18 \<and> nz_digit (s ! 0) \<and> (\<forall>k<5. is_digit (s ! Suc k)) \<and> nz_digit (s ! 6) \<and>
     (\<forall>k<3. is_digit (s ! (k + 7))) \<and> month_ok (s ! 10) (s ! 11) \<and> day_ok (s ! 12) (s ! 13) \<and>
     (\<forall>k<3. is_digit (s ! (k + 14))) \<and> check_char_ok (s ! 17)"

subsection \<open>The regular expressions on characters\<close>

lemma of_char_eq_iff_nat: "(of_char c :: nat) = of_char d \<longleftrightarrow> c = d"
  by (metis char_of_char)

lemma of_char_lits:
  "of_char c = (48::nat) \<longleftrightarrow> c = CHR ''0''" "of_char c = (88::nat) \<longleftrightarrow> c = CHR ''X''"
  "of_char c = (120::nat) \<longleftrightarrow> c = CHR ''x''"
  using of_char_eq_iff_nat [of c "CHR ''0''"] of_char_eq_iff_nat [of c "CHR ''X''"]
    of_char_eq_iff_nat [of c "CHR ''x''"]
  by simp_all

lemma in_ranges_single [simp]:
  "in_ranges [(a, b)] c \<longleftrightarrow> of_char a \<le> (of_char c :: nat) \<and> of_char c \<le> (of_char b :: nat)"
  by (simp add: in_ranges_def)

lemma ends_rng:
  "ends (rng a b) s i =
     (if i < length s \<and> of_char a \<le> (of_char (s ! i) :: nat) \<and> of_char (s ! i) \<le> (of_char b :: nat)
      then [Suc i] else [])"
  by (simp add: rng_def)

lemma ends_lit: "ends (lit a) s i = (if i < length s \<and> of_char (s ! i) = (of_char a :: nat) then [Suc i] else [])"
  by (auto simp: lit_def)

lemma ends_digit: "ends digit s i = (if i < length s \<and> is_digit (s ! i) then [Suc i] else [])"
  by (simp add: digit_def ends_rng is_digit_def)

lemma ends_rep_digit:
  "ends (rep digit n) s i = (if \<forall>k<n. i + k < length s \<and> is_digit (s ! (i + k)) then [i + n] else [])"
  by (simp add: digit_def rng_def ends_rep_chars is_digit_def)

lemma ends_nz: "ends (rng CHR ''1'' CHR ''9'') s i = (if i < length s \<and> nz_digit (s ! i) then [Suc i] else [])"
  by (auto simp: ends_rng nz_digit_def is_digit_def of_char_lits [symmetric])

lemma ends_month:
  "ends re_month s i = (if Suc i < length s \<and> month_ok (s ! i) (s ! Suc i) then [i + 2] else [])"
  by (auto simp: re_month_def ends_rng ends_lit month_ok_def two_digit_val_def is_digit_def digit_val_def)

lemma ends_day:
  "ends re_day s i = (if Suc i < length s \<and> day_ok (s ! i) (s ! Suc i) then [i + 2] else [])"
  by (auto simp: re_day_def ends_rng ends_lit day_ok_def two_digit_val_def is_digit_def digit_val_def)

lemma ends_check_char:
  "ends re_check_char s i = (if i < length s \<and> check_char_ok (s ! i) then [Suc i] else [])"
  by (auto simp: re_check_char_def ends_digit ends_lit check_char_ok_def is_digit_def of_char_lits)

lemmas ends_pieces = ends_rep_digit ends_month ends_day ends_check_char ends_nz

lemma re_address_iff:
  "regex_test re_address s \<longleftrightarrow> length s = 6 \<and> nz_digit (s ! 0) \<and> (\<forall>k<5. is_digit (s ! Suc k))"
  by (auto simp: re_address_def regex_test_anchored [of "[_, _]", simplified] ends_pieces)

lemma re_birthday_iff:
  "regex_test re_birthday s \<longleftrightarrow>
     length s = 8 \<and> nz_digit (s ! 0) \<and> (\<forall>k<3. is_digit (s ! Suc k)) \<and>
     month_ok (s ! 4) (s ! 5) \<and> day_ok (s ! 6) (s ! 7)"
  by (auto simp: re_birthday_def regex_test_anchored [of "[_, _, _, _]", simplified] ends_pieces)

lemma re_id15_iff: "regex_test re_id15 s \<longleftrightarrow> id15_shape s"
  by (auto simp: id15_shape_def re_id15_def regex_test_anchored [of "[_, _, _, _, _]", simplified] ends_pieces
      add.commute)

lemma re_id18_iff: "regex_test re_id18 s \<longleftrightarrow> id18_shape s"
  by (auto simp: id18_shape_def re_id18_def regex_test_anchored [of "[_, _, _, _, _, _, _, _]", simplified]
      ends_pieces add.commute)

lemma re_id_basic_digits: "digits_upto 15 s \<Longrightarrow> regex_test re_id_basic s"
proof -
  assume "digits_upto 15 s"
  then have "ends (seqs [Bol, rep digit 15]) s 0 = [15]"
    by (simp add: ends_rep_digit digits_upto_iff)
  then have "ends re_id_basic s 0 \<noteq> []" by (simp add: re_id_basic_def)
  then show "regex_test re_id_basic s"
    unfolding regex_test_def list_ex_iff by (intro bexI [of _ 0]) simp_all
qed

subsection \<open>Region and birth date\<close>

lemma take_two: "2 \<le> length a \<Longrightarrow> take 2 a = [a ! 0, a ! 1]"
  by (cases a; cases "tl a") auto

lemma take_four: "4 \<le> length a \<Longrightarrow> take 4 a = [a ! 0, a ! 1, a ! 2, a ! 3]"
  by (cases a; cases "tl a"; cases "tl (tl a)"; cases "tl (tl (tl a))") auto

lemma digits_val_two: "digits_val [a, b] = two_digit_val a b"
  by (simp add: digits_val_def two_digit_val_def)

lemma digits_val_four: "digits_val [a, b, c, d] = 1000 * digit_val a + 100 * digit_val b + 10 * digit_val c + digit_val d"
  by (simp add: digits_val_def)

lemma provinceAndCitys_nonempty: "provinceAndCitys k = Some n \<Longrightarrow> n \<noteq> []"
  unfolding provinceAndCitys_def by (drule map_of_SomeD) auto

lemma checkAddressCode_iff:
  "checkAddressCode a \<longleftrightarrow>
     regex_test re_address a \<and> int (two_digit_val (a ! 0) (a ! 1)) \<in> dom provinceAndCitys"
proof (cases "regex_test re_address a")
  case True
  then have len: "length a = 6" and d: "is_digit (a ! 0)" "is_digit (a ! 1)"
    by (auto simp: re_address_iff nz_digit_def)
  then have "parse_int (js_substring a 0 2) = Some (int (two_digit_val (a ! 0) (a ! 1)))"
    by (simp add: js_simps take_two parse_int_digits digits_val_two)
  with True show ?thesis
    by (auto simp: checkAddressCode_def provinceAndCitys_nonempty split: option.splits)
qed (simp add: checkAddressCode_def)

lemma month_ok_range: "month_ok a b \<Longrightarrow> 0 \<le> int (two_digit_val a b) - 1 \<and> int (two_digit_val a b) - 1 \<le> 11"
  by (simp add: month_ok_def)

lemma birth_year_large:
  assumes "4 \<le> length b" and "nz_digit (b ! 0)"
  shows "\<not> (0 \<le> birth_year b \<and> birth_year b \<le> 99)"
proof -
  have "1 \<le> digit_val (b ! 0)" using assms(2)
    by (auto simp: nz_digit_def is_digit_def digit_val_def of_char_lits [symmetric])
  then show ?thesis using assms(1) by (simp add: birth_year_def take_four digits_val_four)
qed

lemma checkBirthDayCode_eval:
  assumes "regex_test re_birthday b"
  shows "checkBirthDayCode now b =
           (let x = new_date (birth_year b) (birth_month b - 1) (birth_day b)
            in if date_after x now then False
               else date_year x = birth_year b \<and> date_month x = birth_month b - 1 \<and>
                    date_day x = birth_day b)"
proof -
  from assms have len: "length b = 8" and d0: "nz_digit (b ! 0)" and d: "\<forall>k<3. is_digit (b ! Suc k)"
    and m: "month_ok (b ! 4) (b ! 5)" and dd: "day_ok (b ! 6) (b ! 7)"
    by (simp_all add: re_birthday_iff)
  have "is_digit (b ! 1)" "is_digit (b ! 2)" "is_digit (b ! 3)"
    using d [rule_format, of 0] d [rule_format, of 1] d [rule_format, of 2]
    by (simp_all add: numeral_eq_Suc)
  then have "list_all is_digit (take 4 b)"
    using len d0 by (simp add: take_four nz_digit_def)
  moreover have "take 4 b \<noteq> []" using len by (cases b) simp_all
  ultimately have y: "parse_int (js_substring b 0 4) = Some (birth_year b)"
    by (simp add: js_simps parse_int_digits birth_year_def)
  have "js_substring b 4 6 = [b ! 4, b ! 5]"
    using len by (simp add: js_simps take_two)
  then have mo: "parse_int (js_substring b 4 6) = Some (birth_month b)"
    using m by (simp add: parse_int_digits month_ok_def birth_month_def digits_val_two)
  have "drop 6 b = [b ! 6, b ! 7]" using len take_two [of "drop 6 b"] by simp
  then have "js_substring_from b 6 = [b ! 6, b ! 7]" by (simp add: js_simps)
  then have da: "parse_int (js_substring_from b 6) = Some (birth_day b)"
    using dd by (simp add: parse_int_digits day_ok_def birth_day_def digits_val_two)
  show ?thesis using assms y mo da by (simp add: checkBirthDayCode_def)
qed

lemma checkBirthDayCode_iff: "checkBirthDayCode now b \<longleftrightarrow> regex_test re_birthday b \<and> birth_ok now b"
proof (cases "regex_test re_birthday b")
  case True
  then have len: "length b = 8" and y: "\<not> (0 \<le> birth_year b \<and> birth_year b \<le> 99)"
    and m: "0 \<le> birth_month b - 1" "birth_month b - 1 \<le> 11"
    using birth_year_large month_ok_range by (auto simp: re_birthday_iff birth_month_def)
  show ?thesis
  proof (cases "valid_ymd (birth_year b) (birth_month b - 1) (birth_day b)")
    case valid: True
    have "\<not> date_after \<lparr>date_year = birth_year b, date_month = birth_month b - 1,
                           date_day = birth_day b, date_time = 0\<rparr> now \<longleftrightarrow>
          (birth_year b, birth_month b - 1, birth_day b, 0) \<le> date_key now"
      by (simp only: date_after_def date_key_def js_date.simps not_less)
    with valid True y show ?thesis
      by (simp add: checkBirthDayCode_eval new_date_valid birth_ok_def del: less_eq_prod_def)
  next
    case invalid: False
    with True y m new_date_fields [OF y m, of "birth_day b"] show ?thesis
      by (auto simp: checkBirthDayCode_eval birth_ok_def Let_def)
  qed
qed (simp add: checkBirthDayCode_def)

lemma re_id15_digits:
  assumes "regex_test re_id15 s"
  shows "digits_upto 15 s"
  unfolding digits_upto_iff
proof (intro allI impI)
  fix k :: nat
  assume k: "k < 15"
  from assms have len: "length s = 15" and a: "nz_digit (s ! 0)"
    and b: "\<forall>k<7. is_digit (s ! Suc k)" and m: "month_ok (s ! 8) (s ! 9)"
    and d: "day_ok (s ! 10) (s ! 11)" and c: "\<forall>k<3. is_digit (s ! (k + 12))"
    by (simp_all add: re_id15_iff id15_shape_def)
  consider "k = 0" | "1 \<le> k \<and> k < 8" | "k = 8 \<or> k = 9" | "k = 10 \<or> k = 11" | "12 \<le> k"
    using k by linarith
  then have "is_digit (s ! k)"
  proof cases
    case 1
    with a show ?thesis by (simp add: nz_digit_def)
  next
    case 2
    then have "k - 1 < 7" and "Suc (k - 1) = k" by linarith+
    then show ?thesis using b [rule_format, of "k - 1"] by simp
  next
    case 3
    with m show ?thesis by (auto simp: month_ok_def)
  next
    case 4
    with d show ?thesis by (auto simp: day_ok_def)
  next
    case 5
    then show ?thesis using c [rule_format, of "k - 12"] k by simp
  qed
  with k len show "k < length s \<and> is_digit (s ! k)" by simp
qed

lemma re_id18_digits:
  assumes "regex_test re_id18 s"
  shows "digits_upto 17 s"
  unfolding digits_upto_iff
proof (intro allI impI)
  fix k :: nat
  assume k: "k < 17"
  from assms have len: "length s = 18" and a: "nz_digit (s ! 0)"
    and b: "\<forall>k<5. is_digit (s ! Suc k)" and a6: "nz_digit (s ! 6)"
    and b7: "\<forall>k<3. is_digit (s ! (k + 7))" and m: "month_ok (s ! 10) (s ! 11)"
    and d: "day_ok (s ! 12) (s ! 13)" and c: "\<forall>k<3. is_digit (s ! (k + 14))"
    by (simp_all add: re_id18_iff id18_shape_def)
  consider "k = 0" | "1 \<le> k \<and> k < 6" | "k = 6" | "7 \<le> k \<and> k < 10" | "k = 10 \<or> k = 11"
    | "k = 12 \<or> k = 13" | "14 \<le> k"
    using k by linarith
  then have "is_digit (s ! k)"
  proof cases
    case 1
    with a show ?thesis by (simp add: nz_digit_def)
  next
    case 2
    then have "k - 1 < 5" and "Suc (k - 1) = k" by linarith+
    then show ?thesis using b [rule_format, of "k - 1"] by simp
  next
    case 3
    with a6 show ?thesis by (simp add: nz_digit_def)
  next
    case 4
    then have "k - 7 < 3" and "k - 7 + 7 = k" by linarith+
    then show ?thesis using b7 [rule_format, of "k - 7"] by simp
  next
    case 5
    with m show ?thesis by (auto simp: month_ok_def)
  next
    case 6
    with d show ?thesis by (auto simp: day_ok_def)
  next
    case 7
    then show ?thesis using c [rule_format, of "k - 14"] k by simp
  qed
  with k len show "k < length s \<and> is_digit (s ! k)" by simp
qed

lemma digits_upto_mono: "digits_upto n s \<Longrightarrow> m \<le> n \<Longrightarrow> digits_upto m s"
  by (simp add: digits_upto_iff)

lemma checkIdCardNo_cases:
  "checkIdCardNo now s \<longleftrightarrow>
     (length s = 15 \<and> check15IdCardNo now s) \<or> (length s = 18 \<and> check18IdCardNo now s)"
proof -
  have "check15IdCardNo now s \<Longrightarrow> digits_upto 15 s"
    by (auto simp: check15IdCardNo_def intro: re_id15_digits split: if_splits)
  moreover have "check18IdCardNo now s \<Longrightarrow> digits_upto 15 s"
    by (auto simp: check18IdCardNo_def split: if_splits
        intro: digits_upto_mono [OF re_id18_digits])
  ultimately show ?thesis
    by (auto simp: checkIdCardNo_def intro: re_id_basic_digits)
qed

lemma address_of_prefix:
  assumes "6 \<le> length s" and "nz_digit (s ! 0)" and "\<forall>k<5. is_digit (s ! Suc k)"
  shows "checkAddressCode (js_substring s 0 6) \<longleftrightarrow> int (two_digit_val (s ! 0) (s ! 1)) \<in> dom provinceAndCitys"
  using assms by (simp add: js_simps checkAddressCode_iff re_address_iff)

lemma birthday_of_id18:
  assumes "id18_shape s"
  shows "checkBirthDayCode now (js_substring s 6 14) \<longleftrightarrow> birth_ok now (take 8 (drop 6 s))"
proof -
  have "regex_test re_birthday (take 8 (drop 6 s))"
    using assms by (simp add: re_birthday_iff id18_shape_def add.commute)
  with assms show ?thesis by (simp add: js_simps checkBirthDayCode_iff id18_shape_def)
qed

lemma birthday_of_id15:
  assumes "id15_shape s"
  shows "checkBirthDayCode now (''19'' @ js_substring s 6 12) \<longleftrightarrow> birth_ok now (''19'' @ take 6 (drop 6 s))"
proof -
  have "regex_test re_birthday (''19'' @ take 6 (drop 6 s))"
    using assms by (auto simp: re_birthday_iff id15_shape_def nz_digit_def is_digit_def nth_append
        less_Suc_eq numeral_eq_Suc)
  with assms show ?thesis by (simp add: js_simps checkBirthDayCode_iff id15_shape_def)
qed

lemma char_at_17: "length s = 18 \<Longrightarrow> to_upper (char_at s 17) = [to_upper_char (s ! 17)]"
  by (simp add: char_at_def to_upper_def)

lemma check18IdCardNo_iff:
  "check18IdCardNo now s \<longleftrightarrow>
     id18_shape s \<and> int (two_digit_val (s ! 0) (s ! 1)) \<in> dom provinceAndCitys \<and>
     birth_ok now (take 8 (drop 6 s)) \<and> parityBit ! nat (weighted_sum s mod 11) = [to_upper_char (s ! 17)]"
proof (cases "id18_shape s")
  case True
  then have d: "digits_upto 17 s" by (simp add: re_id18_digits re_id18_iff [symmetric])
  from True have "length s = 18" "6 \<le> length s" "nz_digit (s ! 0)" "\<forall>k<5. is_digit (s ! Suc k)"
    by (simp_all add: id18_shape_def)
  with True d show ?thesis
    by (simp add: check18IdCardNo_def re_id18_iff address_of_prefix birthday_of_id18 checkParityBit_spec
        char_at_17)
qed (simp add: check18IdCardNo_def re_id18_iff)

lemma check15IdCardNo_iff:
  "check15IdCardNo now s \<longleftrightarrow>
     id15_shape s \<and> int (two_digit_val (s ! 0) (s ! 1)) \<in> dom provinceAndCitys \<and>
     birth_ok now (''19'' @ take 6 (drop 6 s))"
proof (cases "id15_shape s")
  case True
  then have "6 \<le> length s" "nz_digit (s ! 0)" "\<forall>k<5. is_digit (s ! Suc k)"
    by (simp_all add: id15_shape_def)
  with True birthday_of_id15 [OF True, of now] show ?thesis
    by (simp add: check15IdCardNo_def re_id15_iff address_of_prefix)
qed (simp add: check15IdCardNo_def re_id15_iff)

subsection \<open>Properties of the validator\<close>

text \<open>C4: an 18-character string is accepted by \<open>checkIdCardNo\<close> exactly when it has the
  shape of the 18-character regular expression, its two-digit region prefix is a key of
  \<open>provinceAndCitys\<close>, its characters 6..13 name a real calendar day not after the
  current day, and its last character is, up to case, the ISO 7064 check character of
  the first seventeen digits.\<close>

theorem checkIdCardNo_18:
  assumes "length s = 18"
  shows "checkIdCardNo now s \<longleftrightarrow>
           id18_shape s \<and> int (two_digit_val (s ! 0) (s ! 1)) \<in> dom provinceAndCitys \<and>
           birth_ok now (take 8 (drop 6 s)) \<and>
           parityBit ! nat (weighted_sum s mod 11) = [to_upper_char (s ! 17)]"
  using assms by (simp add: checkIdCardNo_cases check18IdCardNo_iff)

text \<open>C5: a 15-character string is accepted by \<open>checkIdCardNo\<close> exactly when it has the
  shape of the 15-character regular expression, its region prefix is a key of
  \<open>provinceAndCitys\<close>, and "19" followed by its characters 6..11 names a real calendar
  day not after the current day.\<close>

theorem checkIdCardNo_15:
  assumes "length s = 15"
  shows "checkIdCardNo now s \<longleftrightarrow>
           id15_shape s \<and> int (two_digit_val (s ! 0) (s ! 1)) \<in> dom provinceAndCitys \<and>
           birth_ok now (''19'' @ take 6 (drop 6 s))"
  using assms by (simp add: checkIdCardNo_cases check15IdCardNo_iff)

text \<open>C6: every string \<open>checkIdCardNo\<close> accepts has 15 or 18 characters, a first digit
  other than 0, and a region prefix that is a key of \<open>provinceAndCitys\<close>.\<close>

theorem checkIdCardNo_accepted_shape:
  assumes "checkIdCardNo now s"
  shows "(length s = 15 \<or> length s = 18) \<and> nz_digit (s ! 0) \<and>
         int (two_digit_val (s ! 0) (s ! 1)) \<in> dom provinceAndCitys"
proof -
  from assms consider "length s = 15" "check15IdCardNo now s" | "length s = 18" "check18IdCardNo now s"
    by (auto simp: checkIdCardNo_cases)
  then show ?thesis
  proof cases
    case 1
    then have sh: "id15_shape s" by (simp add: check15IdCardNo_def re_id15_iff split: if_splits)
    then have "6 \<le> length s" "nz_digit (s ! 0)" "\<forall>k<5. is_digit (s ! Suc k)"
      by (simp_all add: id15_shape_def)
    with 1 show ?thesis by (simp add: check15IdCardNo_def address_of_prefix split: if_splits)
  next
    case 2
    then have sh: "id18_shape s" by (simp add: check18IdCardNo_def re_id18_iff split: if_splits)
    then have "6 \<le> length s" "nz_digit (s ! 0)" "\<forall>k<5. is_digit (s ! Suc k)"
      by (simp_all add: id18_shape_def)
    with 2 show ?thesis by (simp add: check18IdCardNo_def address_of_prefix split: if_splits)
  qed
qed

text \<open>C7: an 18-character string that \<open>checkIdCardNo\<close> accepts passes
  \<open>checkParityBit\<close>.\<close>

theorem checkIdCardNo_18_parity:
  assumes "checkIdCardNo now s" and "length s = 18"
  shows "checkParityBit s"
  using assms by (auto simp: checkIdCardNo_cases check18IdCardNo_def split: if_splits)

text \<open>C8: for a well-formed birth-date code naming a real calendar day, and a clock whose
  time of day is not negative, \<open>checkBirthDayCode\<close> accepts exactly when the day is not
  after the current day: the current day itself is accepted, any later day rejected.\<close>

theorem checkBirthDayCode_not_future:
  assumes "regex_test re_birthday b" and "valid_ymd (birth_year b) (birth_month b - 1) (birth_day b)"
    and "0 \<le> date_time now"
  shows "checkBirthDayCode now b \<longleftrightarrow>
           (birth_year b, birth_month b - 1, birth_day b) \<le> (date_year now, date_month now, date_day now)"
  using assms by (auto simp: checkBirthDayCode_iff birth_ok_def date_key_def less_eq_prod_def
      less_prod_def)

text \<open>C9: \<open>checkAddressCode\<close> accepts exactly six-digit strings whose first digit is not 0
  and whose two-digit prefix is a key of \<open>provinceAndCitys\<close>; in particular the prefix
  00 is always rejected.\<close>

theorem checkAddressCode_accepts:
  "checkAddressCode a \<longleftrightarrow>
     length a = 6 \<and> nz_digit (a ! 0) \<and> (\<forall>k<5. is_digit (a ! Suc k)) \<and>
     int (two_digit_val (a ! 0) (a ! 1)) \<in> dom provinceAndCitys"
  by (simp add: checkAddressCode_iff re_address_iff)

text \<open>C10: the screening expression \<open>/^\d{15}|(\d{17}(\d|x|X))$/\<close> of
  \<open>checkIdCardNo\<close> accepts any string that starts with fifteen digits, whatever follows:
  the alternation binds weaker than the anchors.\<close>

theorem re_id_basic_any_suffix:
  assumes "length p = 15" and "list_all is_digit p"
  shows "regex_test re_id_basic (p @ t)"
proof (rule re_id_basic_digits)
  show "digits_upto 15 (p @ t)" using assms by (simp add: digits_upto_def)
qed

text \<open>C26: \<open>checkBirthDayCode\<close> rejects every birth-date code that does not name a
  real calendar day, whatever the clock: a day past the end of its month (19990231, or
  19000229 in a year that is not a leap year) passes the regular expression, but
  \<open>new Date\<close> carries it into the next month and the comparison of the fields fails.\<close>

theorem checkBirthDayCode_rejects_invalid_day:
  assumes "\<not> valid_ymd (birth_year b) (birth_month b - 1) (birth_day b)"
  shows "\<not> checkBirthDayCode now b"
  using assms by (simp add: checkBirthDayCode_iff birth_ok_def)

text \<open>C32: a birth-date code that \<open>checkBirthDayCode\<close> accepts has a four-digit year from
  1000 to 9999, a month from 1 to 12 and a day from 1 to 31, and the day is not after the
  current day of the clock.\<close>

theorem checkBirthDayCode_bounds:
  assumes "checkBirthDayCode now b"
  shows "1000 \<le> birth_year b \<and> birth_year b \<le> 9999 \<and> 1 \<le> birth_month b \<and> birth_month b \<le> 12 \<and>
         1 \<le> birth_day b \<and> birth_day b \<le> 31 \<and>
         (birth_year b, birth_month b - 1, birth_day b) \<le> (date_year now, date_month now, date_day now)"
proof -
  from assms have r: "regex_test re_birthday b" and ok: "birth_ok now b"
    by (simp_all add: checkBirthDayCode_iff)
  from r have l: "4 \<le> length b" and nz: "nz_digit (b ! 0)" and d: "\<forall>k<3. is_digit (b ! Suc k)"
    by (simp_all add: re_birthday_iff)
  from nz have "1 \<le> digit_val (b ! 0)" "digit_val (b ! 0) \<le> 9"
    by (auto simp: nz_digit_def is_digit_def digit_val_def of_char_lits [symmetric])
  moreover have "digit_val (b ! 1) \<le> 9" "digit_val (b ! 2) \<le> 9" "digit_val (b ! 3) \<le> 9"
    using d digit_val_bound by (auto dest: spec [of _ 0] spec [of _ 1] spec [of _ 2] simp: numeral_eq_Suc)
  ultimately have y: "1000 \<le> birth_year b \<and> birth_year b \<le> 9999"
    using l by (simp add: birth_year_def take_four digits_val_four)
  from ok have v: "valid_ymd (birth_year b) (birth_month b - 1) (birth_day b)"
    and k: "(birth_year b, birth_month b - 1, birth_day b, 0) \<le> date_key now"
    by (simp_all add: birth_ok_def)
  from k have "(birth_year b, birth_month b - 1, birth_day b) \<le> (date_year now, date_month now, date_day now)"
    by (auto simp: date_key_def less_eq_prod_def less_prod_def)
  with y v days_in_month_bounds [of "birth_year b" "birth_month b - 1"] show ?thesis
    by (simp add: valid_ymd_def)
qed

text \<open>C37: against a clock that holds a normalised date, \<open>checkBirthDayCode\<close> accepts a
  well-formed code exactly when it names a real calendar day whose ECMAScript time value
  \<open>MakeDate(MakeDay(y, m - 1, d), 0)\<close> is not greater than the time value of the clock:
  the comparison \<open>xdata \<greater> new Date()\<close> of the source, on milliseconds.\<close>

theorem checkBirthDayCode_time_value:
  assumes "valid_date now"
  shows "checkBirthDayCode now b \<longleftrightarrow>
           regex_test re_birthday b \<and> valid_ymd (birth_year b) (birth_month b - 1) (birth_day b) \<and>
           make_day (birth_year b) (birth_month b - 1) (birth_day b) * ms_per_day \<le> time_value now"
proof -
  let ?x = "\<lparr>date_year = birth_year b, date_month = birth_month b - 1, date_day = birth_day b, date_time = 0\<rparr>"
  have "valid_ymd (birth_year b) (birth_month b - 1) (birth_day b) \<Longrightarrow> valid_date ?x"
    by (simp add: valid_date_def ms_per_day_def)
  then have "valid_ymd (birth_year b) (birth_month b - 1) (birth_day b) \<Longrightarrow>
               (date_key ?x \<le> date_key now \<longleftrightarrow> time_value ?x \<le> time_value now)"
    using date_key_time_value assms by blast
  then show ?thesis
    by (auto simp: checkBirthDayCode_iff birth_ok_def date_key_def time_value_def)
qed


subsection \<open>Witnesses\<close>

text \<open>The clock of the witnesses reads 9 November 2026, 01:00 local time.\<close>

lemma sample18_accepted:
  "checkIdCardNo \<lparr>date_year = 2026, date_month = 10, date_day = 9, date_time = 3600000\<rparr>
     ''11010519491231002X''"
  by code_simp

lemma checkIdCardNo_18_witness:
  "checkIdCardNo \<lparr>date_year = 2026, date_month = 10, date_day = 9, date_time = 3600000\<rparr>
     ''11010519491231002x'' \<and>
   \<not> checkIdCardNo \<lparr>date_year = 2026, date_month = 10, date_day = 9, date_time = 3600000\<rparr>
     ''110105194912310021''"
proof -
  let ?now = "\<lparr>date_year = 2026, date_month = 10, date_day = 9, date_time = 3600000\<rparr> :: js_date"
  have l: "length ''11010519491231002x'' = 18" "length ''110105194912310021'' = 18" by simp_all
  have a: "id18_shape ''11010519491231002x'' \<and>
    int (two_digit_val (''11010519491231002x'' ! 0) (''11010519491231002x'' ! 1)) \<in> dom provinceAndCitys \<and>
    birth_ok ?now (take 8 (drop 6 ''11010519491231002x'')) \<and>
    parityBit ! nat (weighted_sum ''11010519491231002x'' mod 11) = [to_upper_char (''11010519491231002x'' ! 17)]"
    by code_simp
  have b: "parityBit ! nat (weighted_sum ''110105194912310021'' mod 11) \<noteq>
             [to_upper_char (''110105194912310021'' ! 17)]"
    by code_simp
  show ?thesis
    using checkIdCardNo_18 [OF l(1), of ?now] checkIdCardNo_18 [OF l(2), of ?now] a b by blast
qed

lemma checkIdCardNo_15_witness:
  "checkIdCardNo \<lparr>date_year = 2026, date_month = 10, date_day = 9, date_time = 3600000\<rparr>
     ''110105491231002'' \<and>
   \<not> checkIdCardNo \<lparr>date_year = 2026, date_month = 10, date_day = 9, date_time = 3600000\<rparr>
     ''110105490229002''"
proof -
  let ?now = "\<lparr>date_year = 2026, date_month = 10, date_day = 9, date_time = 3600000\<rparr> :: js_date"
  have l: "length ''110105491231002'' = 15" "length ''110105490229002'' = 15" by simp_all
  have a: "id15_shape ''110105491231002'' \<and>
    int (two_digit_val (''110105491231002'' ! 0) (''110105491231002'' ! 1)) \<in> dom provinceAndCitys \<and>
    birth_ok ?now (''19'' @ take 6 (drop 6 ''110105491231002''))"
    by code_simp
  have b: "\<not> birth_ok ?now (''19'' @ take 6 (drop 6 ''110105490229002''))"
    by code_simp
  show ?thesis
    using checkIdCardNo_15 [OF l(1), of ?now] checkIdCardNo_15 [OF l(2), of ?now] a b by blast
qed

lemma checkIdCardNo_accepted_shape_witness:
  "checkIdCardNo \<lparr>date_year = 2026, date_month = 10, date_day = 9, date_time = 3600000\<rparr>
     ''11010519491231002X'' \<and>
   (length ''11010519491231002X'' = 15 \<or> length ''11010519491231002X'' = 18) \<and>
   nz_digit (''11010519491231002X'' ! 0) \<and>
   int (two_digit_val (''11010519491231002X'' ! 0) (''11010519491231002X'' ! 1)) \<in> dom provinceAndCitys"
  using sample18_accepted checkIdCardNo_accepted_shape [OF sample18_accepted] by simp

lemma checkIdCardNo_18_parity_witness:
  "checkIdCardNo \<lparr>date_year = 2026, date_month = 10, date_day = 9, date_time = 3600000\<rparr>
     ''11010519491231002X'' \<and> length ''11010519491231002X'' = 18 \<and>
   checkParityBit ''11010519491231002X''"
  using sample18_accepted checkIdCardNo_18_parity [OF sample18_accepted] by simp

lemma checkBirthDayCode_not_future_witness:
  "regex_test re_birthday ''20261109'' \<and> regex_test re_birthday ''20261110'' \<and>
   checkBirthDayCode \<lparr>date_year = 2026, date_month = 10, date_day = 9, date_time = 3600000\<rparr> ''20261109'' \<and>
   \<not> checkBirthDayCode \<lparr>date_year = 2026, date_month = 10, date_day = 9, date_time = 3600000\<rparr> ''20261110''"
proof -
  let ?now = "\<lparr>date_year = 2026, date_month = 10, date_day = 9, date_time = 3600000\<rparr> :: js_date"
  have r1: "regex_test re_birthday ''20261109''" and r2: "regex_test re_birthday ''20261110''"
    by code_simp+
  have v1: "valid_ymd (birth_year ''20261109'') (birth_month ''20261109'' - 1) (birth_day ''20261109'')"
    and v2: "valid_ymd (birth_year ''20261110'') (birth_month ''20261110'' - 1) (birth_day ''20261110'')"
    by code_simp+
  have t: "0 \<le> date_time ?now" by simp
  have y1: "birth_year ''20261109'' = 2026" "birth_month ''20261109'' = 11" "birth_day ''20261109'' = 9"
    and y2: "birth_year ''20261110'' = 2026" "birth_month ''20261110'' = 11" "birth_day ''20261110'' = 10"
    by code_simp+
  show ?thesis
    using r1 r2 checkBirthDayCode_not_future [OF r1 v1 t] checkBirthDayCode_not_future [OF r2 v2 t] y1 y2
    by simp
qed

lemma checkAddressCode_accepts_witness:
  "checkAddressCode ''110101'' \<and> \<not> checkAddressCode ''000000'' \<and> \<not> checkAddressCode ''100101''"
proof -
  have a: "length ''110101'' = 6 \<and> nz_digit (''110101'' ! 0) \<and> (\<forall>k<5. is_digit (''110101'' ! Suc k)) \<and>
     int (two_digit_val (''110101'' ! 0) (''110101'' ! 1)) \<in> dom provinceAndCitys"
    by code_simp
  have z: "\<not> nz_digit (''000000'' ! 0)" by (simp add: nz_digit_def)
  have t: "int (two_digit_val (''100101'' ! 0) (''100101'' ! 1)) \<notin> dom provinceAndCitys"
    by code_simp
  show ?thesis
    using a z t checkAddressCode_accepts [of "''110101''"] checkAddressCode_accepts [of "''000000''"]
      checkAddressCode_accepts [of "''100101''"]
    by blast
qed

lemma re_id_basic_any_suffix_witness:
  "length ''123456789012345'' = 15 \<and> list_all is_digit ''123456789012345'' \<and>
   regex_test re_id_basic (''123456789012345'' @ ''abc'')"
proof -
  have h: "length ''123456789012345'' = 15" "list_all is_digit ''123456789012345''"
    by (simp_all add: is_digit_def)
  show ?thesis using h re_id_basic_any_suffix [OF h, of "''abc''"] by simp
qed

lemma checkBirthDayCode_rejects_invalid_day_witness:
  "regex_test re_birthday ''19990231'' \<and>
   \<not> checkBirthDayCode \<lparr>date_year = 2026, date_month = 10, date_day = 9, date_time = 3600000\<rparr> ''19990231'' \<and>
   regex_test re_birthday ''19000229'' \<and>
   \<not> checkBirthDayCode \<lparr>date_year = 2026, date_month = 10, date_day = 9, date_time = 3600000\<rparr> ''19000229''"
proof -
  have a: "\<not> valid_ymd (birth_year ''19990231'') (birth_month ''19990231'' - 1) (birth_day ''19990231'')"
    and b: "\<not> valid_ymd (birth_year ''19000229'') (birth_month ''19000229'' - 1) (birth_day ''19000229'')"
    unfolding valid_ymd_def birth_year_def birth_month_def birth_day_def two_digit_val_def digits_val_def
      digit_val_def days_in_month_def leap_year_def by code_simp+
  have "regex_test re_birthday ''19990231''" "regex_test re_birthday ''19000229''"
    by code_simp+
  then show ?thesis
    using checkBirthDayCode_rejects_invalid_day [OF a] checkBirthDayCode_rejects_invalid_day [OF b] by simp
qed

lemma checkBirthDayCode_bounds_witness:
  "checkBirthDayCode \<lparr>date_year = 2026, date_month = 10, date_day = 9, date_time = 3600000\<rparr> ''19491231'' \<and>
   birth_year ''19491231'' = 1949 \<and> birth_month ''19491231'' = 12 \<and> birth_day ''19491231'' = 31 \<and>
   1000 \<le> birth_year ''19491231'' \<and> birth_month ''19491231'' \<le> 12 \<and> birth_day ''19491231'' \<le> 31"
proof -
  have a: "checkBirthDayCode \<lparr>date_year = 2026, date_month = 10, date_day = 9, date_time = 3600000\<rparr>
             ''19491231''" by code_simp
  have "birth_year ''19491231'' = 1949 \<and> birth_month ''19491231'' = 12 \<and> birth_day ''19491231'' = 31"
    unfolding birth_year_def birth_month_def birth_day_def two_digit_val_def digits_val_def digit_val_def
    by code_simp
  then show ?thesis using checkBirthDayCode_bounds [OF a] a by simp
qed

lemma checkBirthDayCode_time_value_witness:
  "valid_date \<lparr>date_year = 2026, date_month = 10, date_day = 9, date_time = 3600000\<rparr> \<and>
   checkBirthDayCode \<lparr>date_year = 2026, date_month = 10, date_day = 9, date_time = 3600000\<rparr> ''20261109'' \<and>
   make_day 2026 10 9 * ms_per_day \<le> time_value \<lparr>date_year = 2026, date_month = 10, date_day = 9, date_time = 3600000\<rparr> \<and>
   \<not> checkBirthDayCode \<lparr>date_year = 2026, date_month = 10, date_day = 9, date_time = 3600000\<rparr> ''20261110''"
proof -
  let ?now = "\<lparr>date_year = 2026, date_month = 10, date_day = 9, date_time = 3600000\<rparr> :: js_date"
  have v: "valid_date ?now"
    unfolding valid_date_def valid_ymd_def days_in_month_def ms_per_day_def by simp
  have y: "birth_year ''20261109'' = 2026 \<and> birth_month ''20261109'' = 11 \<and> birth_day ''20261109'' = 9"
    unfolding birth_year_def birth_month_def birth_day_def two_digit_val_def digits_val_def digit_val_def
    by code_simp
  have r: "regex_test re_birthday ''20261109'' \<and> valid_ymd 2026 10 9" by code_simp
  have "make_day 2026 10 9 * ms_per_day \<le> time_value ?now"
    by (simp add: time_value_def)
  moreover have "checkBirthDayCode ?now ''20261109''"
    using checkBirthDayCode_time_value [OF v, of "''20261109''"] y r \<open>make_day 2026 10 9 * ms_per_day \<le> time_value ?now\<close>
    by simp
  moreover have "\<not> checkBirthDayCode ?now ''20261110''" by code_simp
  ultimately show ?thesis using v by simp
qed

end
