(* ===== verification/IdCardConvert.thy ===== *)
theory IdCardConvert
  imports Checksum
begin

text \<open>
  The extracting and converting methods of \<open>idCardNoUtil\<close> (src/js/idCardNoUtil.js):
  \<open>formateDateCN\<close>, \<open>getIdCardInfo\<close>, \<open>getId15\<close> and \<open>getId18\<close>. None of them
  validates its argument: they dispatch on the length only. \<open>getIdCardInfo\<close> returns
  \<open>undefined\<close> (\<open>None\<close>) for a length other than 15 or 18, the converters
  \<open>null\<close> (\<open>None\<close>). The gender table \<open>genders\<close> maps to the datatype
  \<open>gender\<close>. In \<open>getId18\<close>, JavaScript's \<open>id17 + undefined\<close> appends the
  string "undefined" when \<open>getParityBit\<close> finds a non-digit. The lemmas evaluate the
  three methods on each length (\<open>getId18_digits\<close>, \<open>getIdCardInfo_15\<close>, ...); the
  properties are the round trips between the formats and what \<open>getIdCardInfo\<close> reports.
\<close>

datatype gender = Male | Female

record idCardInfo =
  birthday :: string
  gender :: gender

definition formateDateCN :: "string \<Rightarrow> string" where
  "formateDateCN day =
     js_substring day 0 4 @ ''-'' @ js_substring day 4 6 @ ''-'' @ js_substring_from day 6"

definition getIdCardInfo :: "string \<Rightarrow> idCardInfo option" where
  \<comment> \<open>\<open>parseInt(c) % 2 == 0 ? female : male\<close>: \<open>NaN % 2\<close> is \<open>NaN\<close>, not equal to 0\<close>
  "getIdCardInfo idCardNo =
     (if length idCardNo = 15 then
        Some \<lparr>birthday = formateDateCN (''19'' @ js_substring idCardNo 6 12),
              gender = (if js_mod (parse_int (char_at idCardNo 14)) 2 = Some 0 then Female else Male)\<rparr>
      else if length idCardNo = 18 then
        Some \<lparr>birthday = formateDateCN (js_substring idCardNo 6 14),
              gender = (if js_mod (parse_int (char_at idCardNo 16)) 2 = Some 0 then Female else Male)\<rparr>
      else None)"

definition getId15 :: "string \<Rightarrow> string option" where
  "getId15 idCardNo =
     (if length idCardNo = 15 then Some idCardNo
      else if length idCardNo = 18 then Some (js_substring idCardNo 0 6 @ js_substring idCardNo 8 17)
      else None)"

definition getId18 :: "string \<Rightarrow> string option" where
  "getId18 idCardNo =
     (if length idCardNo = 15 then
        (let id17 = js_substring idCardNo 0 6 @ ''19'' @ js_substring_from idCardNo 6
         in Some (id17 @ (case getParityBit id17 of Some p \<Rightarrow> p | None \<Rightarrow> ''undefined'')))
      else if length idCardNo = 18 then Some idCardNo
      else None)"

subsection \<open>Lemmas\<close>

definition gender_of :: "char \<Rightarrow> gender" where
  \<comment> \<open>the gender a sequence character stands for: female for an even digit\<close>
  "gender_of c = (if is_digit c \<and> even (digit_val c) then Female else Male)"

definition id17_of15 :: "string \<Rightarrow> string" where
  \<comment> \<open>the seventeen characters \<open>getId18\<close> builds: the century 19 inserted after the region\<close>
  "id17_of15 s = take 6 s @ ''19'' @ drop 6 s"

lemma id17_of15_length: "length s = 15 \<Longrightarrow> length (id17_of15 s) = 17"
  by (simp add: id17_of15_def)

lemma id17_of15_digits: "length s = 15 \<Longrightarrow> digits_upto 17 (id17_of15 s) \<longleftrightarrow> list_all is_digit s"
proof -
  have "list_all is_digit ''19''" by (simp add: is_digit_def)
  moreover have "list_all P (take 6 s @ drop 6 s) \<longleftrightarrow> list_all P s" for P
    by simp
  ultimately show "length s = 15 \<Longrightarrow> ?thesis"
    by (simp add: digits_upto_def id17_of15_def del: append_take_drop_id)
qed

lemma getId18_15:
  assumes "length s = 15"
  shows "getId18 s = Some (id17_of15 s @ (case getParityBit (id17_of15 s) of Some p \<Rightarrow> p | None \<Rightarrow> ''undefined''))"
  using assms by (simp add: getId18_def id17_of15_def js_simps)

lemma getId15_18: "length t = 18 \<Longrightarrow> getId15 t = Some (take 6 t @ take 9 (drop 8 t))"
  by (simp add: getId15_def js_simps)

lemma getId18_digits:
  assumes "length s = 15" and "list_all is_digit s"
  shows "\<exists>c. getId18 s = Some (id17_of15 s @ [c]) \<and>
             parityBit ! nat (weighted_sum (id17_of15 s) mod 11) = [c] \<and>
             to_upper_char c = c \<and> (is_digit c \<or> c = CHR ''X'')"
  using getParityBit_digits [of "id17_of15 s"] id17_of15_digits [OF assms(1)] assms getId18_15 [OF assms(1)]
  by auto

lemma getId15_id17: "length s = 15 \<Longrightarrow> getId15 (id17_of15 s @ [c]) = Some s"
  by (simp add: getId15_18 id17_of15_def)

lemma js_mod_parse_int_even: "js_mod (parse_int [c]) 2 = Some 0 \<longleftrightarrow> is_digit c \<and> even (digit_val c)"
proof (cases "is_digit c")
  case True
  have "int (digit_val c) mod 2 = 0 \<longleftrightarrow> even (digit_val c)" by presburger
  with True show ?thesis by (simp add: parse_int_digit js_mod_def js_rem_nonneg)
qed (simp add: parse_int_non_digit js_mod_def)

lemma formateDateCN_8:
  "length d = 8 \<Longrightarrow> formateDateCN d = take 4 d @ ''-'' @ take 2 (drop 4 d) @ ''-'' @ drop 6 d"
  by (simp add: formateDateCN_def js_simps)

lemma getIdCardInfo_15:
  assumes "length s = 15"
  shows "getIdCardInfo s = Some \<lparr>birthday = ''19'' @ take 2 (drop 6 s) @ ''-'' @ take 2 (drop 8 s) @ ''-'' @
                                   take 2 (drop 10 s), gender = gender_of (s ! 14)\<rparr>"
proof -
  have "formateDateCN (''19'' @ take 6 (drop 6 s)) =
          ''19'' @ take 2 (drop 6 s) @ ''-'' @ take 2 (drop 8 s) @ ''-'' @ take 2 (drop 10 s)"
    using assms by (simp add: formateDateCN_8 take_drop)
  with assms show ?thesis
    by (simp add: getIdCardInfo_def js_simps char_at_def gender_of_def js_mod_parse_int_even)
qed

lemma getIdCardInfo_18:
  assumes "length s = 18"
  shows "getIdCardInfo s = Some \<lparr>birthday = take 4 (drop 6 s) @ ''-'' @ take 2 (drop 10 s) @ ''-'' @
                                   take 2 (drop 12 s), gender = gender_of (s ! 16)\<rparr>"
proof -
  have "formateDateCN (take 8 (drop 6 s)) =
          take 4 (drop 6 s) @ ''-'' @ take 2 (drop 10 s) @ ''-'' @ take 2 (drop 12 s)"
    using assms by (simp add: formateDateCN_8 take_drop)
  with assms show ?thesis
    by (simp add: getIdCardInfo_def js_simps char_at_def gender_of_def js_mod_parse_int_even)
qed

lemma id15_of18_digits:
  assumes "digits_upto 17 s"
  shows "list_all is_digit (take 6 s @ take 9 (drop 8 s))"
proof -
  have "take 6 s @ take 9 (drop 8 s) = take 6 (take 17 s) @ drop 8 (take 17 s)"
    by (simp add: drop_take)
  moreover have "list_all is_digit (take 17 s)" using assms by (simp add: digits_upto_def)
  ultimately show ?thesis
    by (simp only: list_all_append) (metis append_take_drop_id list_all_append)
qed

subsection \<open>Properties of the converters\<close>

text \<open>C11: \<open>getId18\<close> upgrades every 15-digit code to an 18-character code, and
  \<open>getId15\<close> takes that code back to the original: the round trip 15 to 18 to 15 is the
  identity.\<close>

theorem getId15_getId18_roundtrip:
  assumes "length s = 15" and "list_all is_digit s"
  shows "\<exists>t. getId18 s = Some t \<and> length t = 18 \<and> getId15 t = Some s"
  using getId18_digits [OF assms] getId15_id17 [OF assms(1)] id17_of15_length [OF assms(1)] by auto

text \<open>C12: an 18-character code of the 1900s whose check character is right comes back from
  \<open>getId15\<close> followed by \<open>getId18\<close> unchanged, except that a lower-case check
  character x becomes X.\<close>

theorem getId18_getId15_restores:
  assumes "length s = 18" and "take 2 (drop 6 s) = ''19''" and "checkParityBit s"
  shows "Option.bind (getId15 s) getId18 = Some (take 17 s @ [to_upper_char (s ! 17)])"
proof -
  let ?u = "take 6 s @ take 9 (drop 8 s)"
  have split: "take 17 s = take 6 s @ ''19'' @ take 9 (drop 8 s)"
    using take_add [of 6 11 s] take_add [of 2 9 "drop 6 s"] assms(2) by simp
  have u: "length ?u = 15" "id17_of15 ?u = take 17 s"
    using assms(1) split by (simp_all add: id17_of15_def)
  from assms(3) have d: "digits_upto 17 s"
    and p: "parityBit ! nat (weighted_sum s mod 11) = to_upper (char_at s 17)"
    by (simp_all add: checkParityBit_spec)
  have "list_all is_digit ?u" using id15_of18_digits [OF d] .
  then obtain c where "getId18 ?u = Some (take 17 s @ [c])"
    and "parityBit ! nat (weighted_sum (take 17 s) mod 11) = [c]"
    using getId18_digits [OF u(1)] u(2) by auto
  with p assms(1) show ?thesis
    by (simp add: getId15_18 weighted_sum_take char_at_def to_upper_def)
qed

text \<open>C13: on a 15-character string with a non-digit, \<open>getId18\<close> does not fail: the
  check character is \<open>undefined\<close> and the concatenation appends the nine characters
  "undefined".\<close>

theorem getId18_non_digit:
  assumes "length s = 15" and "\<not> list_all is_digit s"
  shows "getId18 s = Some (take 6 s @ ''19'' @ drop 6 s @ ''undefined'')"
  using assms by (simp add: getId18_15 getParityBit_spec id17_of15_digits) (simp add: id17_of15_def)

text \<open>C14: the gender \<open>getIdCardInfo\<close> reports is female exactly when the sequence
  character (position 14 of a 15-character code, 16 of an 18-character one) is an even
  digit; an odd digit and any non-digit give male.\<close>

theorem getIdCardInfo_gender:
  assumes "getIdCardInfo s = Some info"
  shows "gender info = (let c = s ! (if length s = 15 then 14 else 16)
                        in if is_digit c \<and> even (digit_val c) then Female else Male)"
proof -
  have "length s = 15 \<or> length s = 18" using assms by (simp add: getIdCardInfo_def split: if_splits)
  with assms show ?thesis by (auto simp: getIdCardInfo_15 getIdCardInfo_18 gender_of_def)
qed

text \<open>C15: the birthday \<open>getIdCardInfo\<close> reports is the year, month and day of the code
  joined by hyphens, with the century 19 put in front of a 15-character code's two-digit
  year.\<close>

theorem getIdCardInfo_birthday:
  assumes "getIdCardInfo s = Some info"
  shows "let m = (if length s = 15 then 8 else 10)
         in birthday info = (if length s = 15 then ''19'' @ take 2 (drop 6 s) else take 4 (drop 6 s)) @
                            ''-'' @ take 2 (drop m s) @ ''-'' @ take 2 (drop (m + 2) s)"
proof -
  have "length s = 15 \<or> length s = 18" using assms by (simp add: getIdCardInfo_def split: if_splits)
  with assms show ?thesis by (auto simp: getIdCardInfo_15 getIdCardInfo_18)
qed

text \<open>C16: upgrading a 15-digit code with \<open>getId18\<close> keeps the birthday and the gender
  \<open>getIdCardInfo\<close> reports.\<close>

theorem getId18_preserves_info:
  assumes "length s = 15" and "list_all is_digit s"
  shows "Option.bind (getId18 s) getIdCardInfo = getIdCardInfo s"
proof -
  obtain c where g: "getId18 s = Some (id17_of15 s @ [c])" using getId18_digits [OF assms] by auto
  have "length (id17_of15 s @ [c]) = 18" using id17_of15_length [OF assms(1)] by simp
  with assms(1) show ?thesis
    by (simp add: g getIdCardInfo_15 getIdCardInfo_18 id17_of15_def nth_append take_drop)
qed

text \<open>C17: for a string whose length is neither 15 nor 18, \<open>getIdCardInfo\<close>,
  \<open>getId15\<close> and \<open>getId18\<close> all return nothing (\<open>undefined\<close>, \<open>null\<close>,
  \<open>null\<close>).\<close>

theorem convert_other_lengths:
  assumes "length s \<noteq> 15" and "length s \<noteq> 18"
  shows "getIdCardInfo s = None \<and> getId15 s = None \<and> getId18 s = None"
  using assms by (simp add: getIdCardInfo_def getId15_def getId18_def)

text \<open>C21: for every 18-character string whose first seventeen characters are digits (in
  particular every accepted 18-character code), downgrading, upgrading and downgrading
  again gives the same 15-character code as downgrading once.\<close>

theorem getId15_getId18_stable:
  assumes "length s = 18" and "digits_upto 17 s"
  shows "Option.bind (Option.bind (getId15 s) getId18) getId15 = getId15 s"
proof -
  let ?u = "take 6 s @ take 9 (drop 8 s)"
  have u: "length ?u = 15" using assms(1) by simp
  obtain c where "getId18 ?u = Some (id17_of15 ?u @ [c])"
    using getId18_digits [OF u id15_of18_digits [OF assms(2)]] by blast
  with u assms(1) show ?thesis by (simp add: getId15_18 getId15_id17)
qed

text \<open>C33: whatever 15- or 18-character string it is given, \<open>getIdCardInfo\<close> reports a
  birthday of the documented form yyyy-mm-dd: ten characters with hyphens at positions 4
  and 7.\<close>

theorem getIdCardInfo_birthday_form:
  assumes "getIdCardInfo s = Some info"
  shows "length (birthday info) = 10 \<and> birthday info ! 4 = CHR ''-'' \<and> birthday info ! 7 = CHR ''-''"
proof -
  have "length s = 15 \<or> length s = 18" using assms by (simp add: getIdCardInfo_def split: if_splits)
  with assms show ?thesis by (auto simp: getIdCardInfo_15 getIdCardInfo_18 nth_append)
qed

subsection \<open>Witnesses\<close>

lemma getId15_getId18_roundtrip_witness:
  "length ''110105491231002'' = 15 \<and> list_all is_digit ''110105491231002'' \<and>
   (\<exists>t. getId18 ''110105491231002'' = Some t \<and> length t = 18 \<and> getId15 t = Some ''110105491231002'')"
proof -
  have h: "length ''110105491231002'' = 15" "list_all is_digit ''110105491231002''"
    by (simp_all add: is_digit_def)
  show ?thesis using getId15_getId18_roundtrip [OF h] h by simp
qed

lemma getId18_getId15_restores_witness:
  "checkParityBit ''11010519491231002x'' \<and>
   Option.bind (getId15 ''11010519491231002x'') getId18 = Some ''11010519491231002X''"
proof -
  have cp: "checkParityBit ''11010519491231002x''" by code_simp
  have "Option.bind (getId15 ''11010519491231002x'') getId18 =
          Some (take 17 ''11010519491231002x'' @ [to_upper_char (''11010519491231002x'' ! 17)])"
    by (rule getId18_getId15_restores [OF _ _ cp]) simp_all
  moreover have "to_upper_char CHR ''x'' = CHR ''X''" by code_simp
  ultimately show ?thesis using cp by simp
qed

lemma getId18_non_digit_witness:
  "\<not> list_all is_digit ''11010549123100a'' \<and>
   getId18 ''11010549123100a'' = Some ''1101051949123100aundefined''"
proof -
  have n: "\<not> list_all is_digit ''11010549123100a''" by (simp add: is_digit_def)
  show ?thesis using getId18_non_digit [OF _ n] n by simp
qed

lemma getIdCardInfo_gender_witness:
  "getIdCardInfo ''11010519491231002X'' = Some \<lparr>birthday = ''1949-12-31'', gender = Female\<rparr> \<and>
   gender (the (getIdCardInfo ''1101051949123100aX'')) = Male"
proof -
  have a: "getIdCardInfo ''11010519491231002X'' = Some \<lparr>birthday = ''1949-12-31'', gender = Female\<rparr>"
    by code_simp
  have b: "getIdCardInfo ''1101051949123100aX'' = Some (the (getIdCardInfo ''1101051949123100aX''))"
    by code_simp
  have "gender (the (getIdCardInfo ''1101051949123100aX'')) = Male"
    using getIdCardInfo_gender [OF b] by (simp add: is_digit_def)
  with a show ?thesis using getIdCardInfo_gender [OF a] by simp
qed

lemma getIdCardInfo_birthday_witness:
  "getIdCardInfo ''110105491231002'' = Some (the (getIdCardInfo ''110105491231002'')) \<and>
   birthday (the (getIdCardInfo ''110105491231002'')) = ''1949-12-31''"
proof -
  have a: "getIdCardInfo ''110105491231002'' = Some (the (getIdCardInfo ''110105491231002''))"
    by code_simp
  show ?thesis using getIdCardInfo_birthday [OF a] a by simp
qed

lemma getId18_preserves_info_witness:
  "list_all is_digit ''110105491231002'' \<and>
   Option.bind (getId18 ''110105491231002'') getIdCardInfo = getIdCardInfo ''110105491231002''"
proof -
  have d: "list_all is_digit ''110105491231002''" by (simp add: is_digit_def)
  show ?thesis using getId18_preserves_info [OF _ d] d by simp
qed

lemma getId15_getId18_stable_witness:
  "digits_upto 17 ''11010520000229001X'' \<and>
   Option.bind (Option.bind (getId15 ''11010520000229001X'') getId18) getId15 = Some ''110105000229001''"
proof -
  have d: "digits_upto 17 ''11010520000229001X''" by (simp add: digits_upto_def is_digit_def)
  have "getId15 ''11010520000229001X'' = Some ''110105000229001''" by (simp add: getId15_18)
  with d show ?thesis using getId15_getId18_stable [OF _ d] by simp
qed

lemma convert_other_lengths_witness:
  "getIdCardInfo ''12345'' = None \<and> getId15 ''12345'' = None \<and> getId18 ''12345'' = None"
  using convert_other_lengths [of "''12345''"] by simp

lemma getIdCardInfo_birthday_form_witness:
  "getIdCardInfo ''11010549123100a'' = Some \<lparr>birthday = ''1949-12-31'', gender = Male\<rparr> \<and>
   length ''1949-12-31'' = 10 \<and> ''1949-12-31'' ! 4 = CHR ''-'' \<and> ''1949-12-31'' ! 7 = CHR ''-''"
proof -
  have a: "getIdCardInfo ''11010549123100a'' = Some \<lparr>birthday = ''1949-12-31'', gender = Male\<rparr>"
    by code_simp
  show ?thesis using getIdCardInfo_birthday_form [OF a] a by simp
qed

end
