(* ===== verification/IdCardSpec.thy ===== *)
theory IdCardSpec
  imports IdCardCheck IdCardConvert
begin

text \<open>
  The abstract model of spec.md (sections 3 and 4.1) and the refinement of the code to it.
  An \<open>identity_code\<close> is the decomposition of the data model: the region code, the
  birth-date code with its century explicit, the sequence code, and the check character
  of the 18-digit form. \<open>parse_id\<close> is the abstraction function from a string.
  \<open>valid_identity\<close> is the validity of the specification (the invariants of section 3
  and the operations \<open>validateRegion\<close>, \<open>validateBirthDate\<close>,
  \<open>verifyChecksum\<close>), with the check character defined by ISO 7064 MOD 11-2 and the
  weights \<open>2^(i-1) mod 11\<close> of the header comment of src/js/idCardNoUtil.js, not by the
  code's tables. \<open>upgrade\<close>, \<open>downgrade\<close> and \<open>info_of\<close> are the abstract
  conversions and the extraction of \<open>IdentityInfo\<close>.
\<close>

record identity_code =
  region_code :: string
  birth_code :: string
  sequence_code :: string
  check_char :: "char option"

definition parse_id :: "string \<Rightarrow> identity_code option" where
  "parse_id s =
     (if length s = 15 then
        Some \<lparr>region_code = take 6 s, birth_code = ''19'' @ take 6 (drop 6 s),
              sequence_code = take 3 (drop 12 s), check_char = None\<rparr>
      else if length s = 18 then
        Some \<lparr>region_code = take 6 s, birth_code = take 8 (drop 6 s),
              sequence_code = take 3 (drop 14 s), check_char = Some (s ! 17)\<rparr>
      else None)"

definition body17 :: "identity_code \<Rightarrow> string" where
  "body17 c = region_code c @ birth_code c @ sequence_code c"

definition WeightVector :: "int list" where
  \<comment> \<open>\<open>Wi = 2^(i-1) mod 11\<close>, \<open>i\<close> counted from the right with the check character at 1\<close>
  "WeightVector = map (\<lambda>k. 2 ^ (17 - k) mod 11) [0..<17]"

definition computeChecksum :: "string \<Rightarrow> char" where
  \<comment> \<open>the character whose value \<open>v\<close> (X for 10) makes \<open>sum + v = 1 (mod 11)\<close>\<close>
  "computeChecksum code17 =
     (let r = (\<Sum>k<17. int (digit_val (code17 ! k)) * WeightVector ! k) mod 11;
          v = (12 - r) mod 11
      in if v = 10 then CHR ''X'' else char_of (48 + nat v))"

definition validateRegion :: "string \<Rightarrow> bool" where
  "validateRegion r \<longleftrightarrow>
     length r = 6 \<and> list_all is_digit r \<and> r ! 0 \<noteq> CHR ''0'' \<and>
     int (two_digit_val (r ! 0) (r ! 1)) \<in> dom provinceAndCitys"

definition validateBirthDate :: "js_date \<Rightarrow> string \<Rightarrow> bool" where
  "validateBirthDate now b \<longleftrightarrow>
     length b = 8 \<and> list_all is_digit b \<and> b ! 0 \<noteq> CHR ''0'' \<and> birth_ok now b"

definition valid_identity :: "js_date \<Rightarrow> identity_code \<Rightarrow> bool" where
  "valid_identity now c \<longleftrightarrow>
     validateRegion (region_code c) \<and> validateBirthDate now (birth_code c) \<and>
     length (sequence_code c) = 3 \<and> list_all is_digit (sequence_code c) \<and>
     (case check_char c of None \<Rightarrow> True | Some ch \<Rightarrow> to_upper_char ch = computeChecksum (body17 c))"

definition upgrade :: "identity_code \<Rightarrow> identity_code" where
  \<comment> \<open>\<open>upgradeTo18\<close>: the century is already explicit; add the computed check character\<close>
  "upgrade c = c\<lparr>check_char := Some (computeChecksum (body17 c))\<rparr>"

definition downgrade :: "identity_code \<Rightarrow> identity_code" where
  \<comment> \<open>\<open>downgradeTo15\<close>: drop the check character (the century is implicit in the short form)\<close>
  "downgrade c = c\<lparr>check_char := None\<rparr>"

definition info_of :: "identity_code \<Rightarrow> idCardInfo" where
  \<comment> \<open>\<open>extractInfo\<close>: the birth date as YYYY-MM-DD, the gender by the parity of the last
      sequence digit\<close>
  "info_of c =
     \<lparr>birthday = take 4 (birth_code c) @ ''-'' @ take 2 (drop 4 (birth_code c)) @ ''-'' @ drop 6 (birth_code c),
      gender = (if even (digit_val (last (sequence_code c))) then Female else Male)\<rparr>"

subsection \<open>Lemmas\<close>

lemma take17_split: "take 17 s = take 6 s @ take 8 (drop 6 s) @ take 3 (drop 14 s)"
  using take_add [of 6 11 s] take_add [of 8 3 "drop 6 s"] by simp

lemma take15_split: "take 15 s = take 6 s @ take 6 (drop 6 s) @ take 3 (drop 12 s)"
  using take_add [of 6 9 s] take_add [of 6 3 "drop 6 s"] by simp

lemma parityBit_computeChecksum:
  "parityBit ! nat (weighted_sum s mod 11) = [computeChecksum s]"
proof -
  have "list_all (\<lambda>r. parityBit ! r = [let v = (12 - int r) mod 11 in if v = 10 then CHR ''X''
                     else char_of (48 + nat v)]) [0..<11]"
    unfolding parityBit_def by code_simp
  moreover have "nat (weighted_sum s mod 11) < 11" by simp
  moreover have "WeightVector ! k = powers ! k" if "k < 17" for k
    using that by (simp add: WeightVector_def powers_iso)
  ultimately show ?thesis
    by (simp add: list_all_length computeChecksum_def weighted_sum_def Let_def)
qed

lemma computeChecksum_take: "computeChecksum (take 17 s) = computeChecksum s"
proof -
  have "(\<Sum>k<17. int (digit_val (take 17 s ! k)) * WeightVector ! k) =
          (\<Sum>k<17. int (digit_val (s ! k)) * WeightVector ! k)"
    by (rule sum.cong) simp_all
  then show ?thesis by (simp add: computeChecksum_def)
qed

lemma computeChecksum_char: "is_digit (computeChecksum s) \<or> computeChecksum s = CHR ''X''"
proof -
  have "nat (weighted_sum s mod 11) < 11" by simp
  from parityBit_singleton [OF this] obtain c where
    "parityBit ! nat (weighted_sum s mod 11) = [c]" "is_digit c \<or> c = CHR ''X''" by blast
  then show ?thesis by (simp add: parityBit_computeChecksum)
qed

lemma to_upper_char_check:
  assumes "to_upper_char c = computeChecksum s"
  shows "check_char_ok c"
proof -
  have "\<not> is_digit (to_upper_char c)" if h: "(97::nat) \<le> of_char c \<and> of_char c \<le> (122::nat)"
  proof -
    from h have "(of_char c - 32 :: nat) < 256" by linarith
    with h show ?thesis by (simp add: to_upper_char_def is_digit_def) arith
  qed
  moreover have "\<not> ((97::nat) \<le> of_char c \<and> of_char c \<le> (122::nat)) \<Longrightarrow> to_upper_char c = c"
    unfolding to_upper_char_def by presburger
  moreover have "to_upper_char c = CHR ''X'' \<Longrightarrow> c = CHR ''x'' \<or> c = CHR ''X''"
    by (auto simp: to_upper_char_def of_char_lits [symmetric] split: if_splits)
  ultimately show ?thesis using assms computeChecksum_char [of s]
    by (auto simp: check_char_ok_def)
qed

lemma birth_ok_month_day:
  assumes "birth_ok now b" and "is_digit (b ! 4)" "is_digit (b ! 5)" "is_digit (b ! 6)" "is_digit (b ! 7)"
  shows "month_ok (b ! 4) (b ! 5) \<and> day_ok (b ! 6) (b ! 7)"
  using assms days_in_month_bounds [of "birth_year b" "birth_month b - 1"]
  by (auto simp: birth_ok_def valid_ymd_def birth_month_def birth_day_def month_ok_def day_ok_def)

lemma id18_shape_iff:
  assumes "length s = 18" and "birth_ok now (take 8 (drop 6 s))"
  shows "id18_shape s \<longleftrightarrow> digits_upto 17 s \<and> nz_digit (s ! 0) \<and> nz_digit (s ! 6) \<and> check_char_ok (s ! 17)"
proof
  assume "id18_shape s"
  then show "digits_upto 17 s \<and> nz_digit (s ! 0) \<and> nz_digit (s ! 6) \<and> check_char_ok (s ! 17)"
    using re_id18_digits [of s] by (simp add: re_id18_iff id18_shape_def)
next
  assume r: "digits_upto 17 s \<and> nz_digit (s ! 0) \<and> nz_digit (s ! 6) \<and> check_char_ok (s ! 17)"
  then have d: "\<forall>k<17. is_digit (s ! k)" by (simp add: digits_upto_iff)
  have "month_ok (s ! 10) (s ! 11) \<and> day_ok (s ! 12) (s ! 13)"
    using birth_ok_month_day [OF assms(2)] d assms(1) by simp
  with r d assms(1) show "id18_shape s" by (simp add: id18_shape_def)
qed

lemma id15_shape_iff:
  assumes "length s = 15" and "birth_ok now (''19'' @ take 6 (drop 6 s))"
  shows "id15_shape s \<longleftrightarrow> digits_upto 15 s \<and> nz_digit (s ! 0)"
proof
  assume "id15_shape s"
  then show "digits_upto 15 s \<and> nz_digit (s ! 0)"
    using re_id15_digits [of s] by (simp add: re_id15_iff id15_shape_def)
next
  assume r: "digits_upto 15 s \<and> nz_digit (s ! 0)"
  then have d: "\<forall>k<15. is_digit (s ! k)" by (simp add: digits_upto_iff)
  have "month_ok (s ! 8) (s ! 9) \<and> day_ok (s ! 10) (s ! 11)"
    using birth_ok_month_day [OF assms(2)] d assms(1) by (simp add: nth_append)
  with r d assms(1) show "id15_shape s" by (simp add: id15_shape_def)
qed

lemma parse_valid18:
  assumes "length s = 18"
  shows "(\<exists>c. parse_id s = Some c \<and> valid_identity now c) \<longleftrightarrow>
           digits_upto 17 s \<and> nz_digit (s ! 0) \<and> nz_digit (s ! 6) \<and>
           int (two_digit_val (s ! 0) (s ! 1)) \<in> dom provinceAndCitys \<and>
           birth_ok now (take 8 (drop 6 s)) \<and> to_upper_char (s ! 17) = computeChecksum s"
proof -
  have D: "list_all is_digit (take 6 s) \<and> list_all is_digit (take 8 (drop 6 s)) \<and>
           list_all is_digit (take 3 (drop 14 s)) \<longleftrightarrow> digits_upto 17 s"
    using assms by (simp add: digits_upto_def take17_split)
  have "digits_upto 17 s \<Longrightarrow> is_digit (s ! 0) \<and> is_digit (s ! 6)" by (simp add: digits_upto_iff)
  with D assms show ?thesis
    by (auto simp: parse_id_def valid_identity_def validateRegion_def validateBirthDate_def body17_def
        take17_split [symmetric] computeChecksum_take nz_digit_def)
qed

lemma parse_valid15:
  assumes "length s = 15"
  shows "(\<exists>c. parse_id s = Some c \<and> valid_identity now c) \<longleftrightarrow>
           digits_upto 15 s \<and> nz_digit (s ! 0) \<and>
           int (two_digit_val (s ! 0) (s ! 1)) \<in> dom provinceAndCitys \<and>
           birth_ok now (''19'' @ take 6 (drop 6 s))"
proof -
  have D: "list_all is_digit (take 6 s) \<and> list_all is_digit (take 6 (drop 6 s)) \<and>
           list_all is_digit (take 3 (drop 12 s)) \<longleftrightarrow> digits_upto 15 s"
    using assms by (simp add: digits_upto_def take15_split)
  have "digits_upto 15 s \<Longrightarrow> is_digit (s ! 0)" by (simp add: digits_upto_iff)
  moreover have "list_all is_digit ''19''" "CHR ''1'' \<noteq> CHR ''0''" by (simp_all add: is_digit_def)
  ultimately show ?thesis using D assms
    by (auto simp: parse_id_def valid_identity_def validateRegion_def validateBirthDate_def nz_digit_def)
qed

subsection \<open>Refinement of the validator\<close>

text \<open>C27: \<open>checkIdCardNo\<close> implements the validity of the specification: it accepts a
  string exactly when the string decomposes into an identity code (15 or 18 characters)
  whose region is in the region table, whose birth date is a real calendar day not after
  the current day, whose sequence code has three digits, and whose check character, if
  any, is up to case the ISO 7064 MOD 11-2 character of the first seventeen digits.\<close>

theorem checkIdCardNo_refines_spec:
  "checkIdCardNo now s \<longleftrightarrow> (\<exists>c. parse_id s = Some c \<and> valid_identity now c)"
proof -
  consider "length s = 18" | "length s = 15" | "length s \<noteq> 15" "length s \<noteq> 18" by blast
  then show ?thesis
  proof cases
    case 1
    then show ?thesis
      using id18_shape_iff [OF 1] to_upper_char_check [of "s ! 17" s]
      by (auto simp: parse_valid18 [OF 1] checkIdCardNo_cases check18IdCardNo_iff parityBit_computeChecksum)
  next
    case 2
    then show ?thesis
      using id15_shape_iff [OF 2]
      by (auto simp: parse_valid15 [OF 2] checkIdCardNo_cases check15IdCardNo_iff)
  next
    case 3
    then show ?thesis by (simp add: checkIdCardNo_cases parse_id_def)
  qed
qed

subsection \<open>Refinement of the check character\<close>

text \<open>C34: \<open>getParityBit\<close> implements \<open>computeChecksum\<close> of the specification on every
  string whose first seventeen characters are digits, and returns \<open>undefined\<close> on every
  other string.\<close>

theorem getParityBit_refines_computeChecksum:
  "getParityBit s = (if digits_upto 17 s then Some [computeChecksum s] else None)"
  by (simp add: getParityBit_spec parityBit_computeChecksum)

text \<open>C35: \<open>checkParityBit\<close> implements \<open>verifyChecksum\<close>: it holds exactly when the
  string has an eighteenth character, its first seventeen are digits, and the eighteenth,
  upper-cased, is the specified check character.\<close>

theorem checkParityBit_refines_verifyChecksum:
  "checkParityBit s \<longleftrightarrow> digits_upto 17 s \<and> 17 < length s \<and> to_upper_char (s ! 17) = computeChecksum s"
  by (auto simp: checkParityBit_spec parityBit_computeChecksum char_at_def to_upper_def)

subsection \<open>Refinement of the converters and of the extraction\<close>

lemma id17_of15_split: "length s = 15 \<Longrightarrow> id17_of15 s = take 6 s @ ''19'' @ take 6 (drop 6 s) @ take 3 (drop 12 s)"
  using append_take_drop_id [of 6 "drop 6 s"] by (simp add: id17_of15_def)

lemma accepted_digits:
  assumes "checkIdCardNo now s"
  shows "(length s = 15 \<and> digits_upto 15 s) \<or> (length s = 18 \<and> digits_upto 17 s)"
  using assms re_id15_digits [of s] re_id18_digits [of s]
  by (auto simp: checkIdCardNo_cases check15IdCardNo_iff check18IdCardNo_iff re_id15_iff re_id18_iff)

text \<open>C28: \<open>getId18\<close> implements \<open>upgradeTo18\<close> on 15-digit codes: the decomposition
  of its result is the decomposition of the argument with the check character of the
  specification added.\<close>

theorem getId18_refines_upgrade:
  assumes "length s = 15" and "list_all is_digit s"
  shows "Option.bind (getId18 s) parse_id = map_option upgrade (parse_id s)"
proof -
  obtain c where g: "getId18 s = Some (id17_of15 s @ [c])"
    and p: "parityBit ! nat (weighted_sum (id17_of15 s) mod 11) = [c]"
    using getId18_digits [OF assms] by blast
  have c: "c = computeChecksum (id17_of15 s)" using p by (simp add: parityBit_computeChecksum)
  have l: "length (id17_of15 s) = 17" using id17_of15_length [OF assms(1)] .
  show ?thesis using assms(1) l
    by (simp add: g c parse_id_def upgrade_def body17_def id17_of15_split nth_append)
qed

text \<open>C29: \<open>getId15\<close> implements \<open>downgradeTo15\<close> on 18-character codes of the 1900s:
  the decomposition of its result is the decomposition of the argument without the check
  character.\<close>

theorem getId15_refines_downgrade:
  assumes "length s = 18" and "take 2 (drop 6 s) = ''19''"
  shows "Option.bind (getId15 s) parse_id = map_option downgrade (parse_id s)"
proof -
  have "take 8 (drop 6 s) = ''19'' @ take 6 (drop 8 s)"
    using take_add [of 2 6 "drop 6 s"] assms(2) by simp
  with assms(1) show ?thesis
    by (simp add: getId15_18 parse_id_def downgrade_def take_drop)
qed

text \<open>C30: on every code \<open>checkIdCardNo\<close> accepts, \<open>getIdCardInfo\<close> implements
  \<open>extractInfo\<close>: the birthday is the birth-date code of the decomposition written
  YYYY-MM-DD, and the gender is female exactly when the last sequence digit is even.\<close>

theorem getIdCardInfo_refines_extract:
  assumes "checkIdCardNo now s"
  shows "getIdCardInfo s = map_option info_of (parse_id s)"
  using accepted_digits [OF assms]
proof
  assume a: "length s = 15 \<and> digits_upto 15 s"
  then have "is_digit (s ! 14)" by (simp add: digits_upto_iff)
  with a show ?thesis
    by (simp add: getIdCardInfo_15 parse_id_def info_of_def gender_of_def last_conv_nth take_drop)
next
  assume a: "length s = 18 \<and> digits_upto 17 s"
  then have "is_digit (s ! 16)" by (simp add: digits_upto_iff)
  with a show ?thesis
    by (simp add: getIdCardInfo_18 parse_id_def info_of_def gender_of_def last_conv_nth take_drop)
qed

subsection \<open>Witnesses\<close>

lemma getId18_refines_upgrade_witness:
  "list_all is_digit ''110105491231002'' \<and>
   Option.bind (getId18 ''110105491231002'') parse_id = map_option upgrade (parse_id ''110105491231002'')"
proof -
  have d: "list_all is_digit ''110105491231002''" by (simp add: is_digit_def)
  show ?thesis using getId18_refines_upgrade [OF _ d] d by simp
qed

lemma getId15_refines_downgrade_witness:
  "take 2 (drop 6 ''11010519491231002X'') = ''19'' \<and>
   Option.bind (getId15 ''11010519491231002X'') parse_id = map_option downgrade (parse_id ''11010519491231002X'')"
  using getId15_refines_downgrade [of "''11010519491231002X''"] by simp

lemma getIdCardInfo_refines_extract_witness:
  "checkIdCardNo \<lparr>date_year = 2026, date_month = 10, date_day = 9, date_time = 3600000\<rparr> ''11010519491231002X'' \<and>
   getIdCardInfo ''11010519491231002X'' = map_option info_of (parse_id ''11010519491231002X'')"
proof -
  have a: "checkIdCardNo \<lparr>date_year = 2026, date_month = 10, date_day = 9, date_time = 3600000\<rparr>
             ''11010519491231002X''" by code_simp
  show ?thesis using getIdCardInfo_refines_extract [OF a] a by simp
qed

end
