(* ===== verification/Keyboard.thy ===== *)
theory Keyboard
  imports Main
begin













subsection \<open>Lemmas\<close>












subsection \<open>Properties of the key table\<close>





subsection \<open>Witnesses\<close>



end
