(* ===== verification/ValidatorFlow.thy ===== *)
theory ValidatorFlow
  imports IdCardCheck
begin

text \<open>
  The control flow of the validator of src/js/idCardNoUtil.js (lines 134-171).
  \<open>checkIdCardNo_trace\<close>, \<open>check15_trace\<close> and \<open>check18_trace\<close> follow the
  early returns of \<open>checkIdCardNo\<close>, \<open>check15IdCardNo\<close> and \<open>check18IdCardNo\<close>
  and record, besides the result, the list of checks the code runs, in the order it runs
  them: the screening expression, the shape expression, \<open>checkAddressCode\<close>,
  \<open>checkBirthDayCode\<close> and \<open>checkParityBit\<close>. Section 7 of spec.md requires that an
  earlier check short-circuits the later ones (region before date, date before
  checksum). The second part compares \<open>checkIdCardNo\<close> with the same method whose
  screening expression has the grouping the comment intends,
  \<open>/^(\d{15}|\d{17}(\d|x|X))$/\<close>.
\<close>

datatype check_stage = Screen | Shape | Region | Birthday | Parity

definition check15_trace :: "js_date \<Rightarrow> string \<Rightarrow> check_stage list \<times> bool" where
  "check15_trace now idCardNo =
     (if \<not> regex_test re_id15 idCardNo then ([Shape], False)
      else if \<not> checkAddressCode (js_substring idCardNo 0 6) then ([Shape, Region], False)
      else ([Shape, Region, Birthday], checkBirthDayCode now (''19'' @ js_substring idCardNo 6 12)))"

definition check18_trace :: "js_date \<Rightarrow> string \<Rightarrow> check_stage list \<times> bool" where
  "check18_trace now idCardNo =
     (if \<not> regex_test re_id18 idCardNo then ([Shape], False)
      else if \<not> checkAddressCode (js_substring idCardNo 0 6) then ([Shape, Region], False)
      else if \<not> checkBirthDayCode now (js_substring idCardNo 6 14) then ([Shape, Region, Birthday], False)
      else ([Shape, Region, Birthday, Parity], checkParityBit idCardNo))"

definition checkIdCardNo_trace :: "js_date \<Rightarrow> string \<Rightarrow> check_stage list \<times> bool" where
  "checkIdCardNo_trace now idCardNo =
     (if \<not> regex_test re_id_basic idCardNo then ([Screen], False)
      else if length idCardNo = 15 then (let (t, r) = check15_trace now idCardNo in (Screen # t, r))
      else if length idCardNo = 18 then (let (t, r) = check18_trace now idCardNo in (Screen # t, r))
      else ([Screen], False))"

definition check_order :: "check_stage list" where
  "check_order = [Screen, Shape, Region, Birthday, Parity]"

definition stage_ok :: "js_date \<Rightarrow> string \<Rightarrow> check_stage \<Rightarrow> bool" where
  \<comment> \<open>whether a check passes on the string, as the code calls it\<close>
  "stage_ok now s st =
     (case st of
        Screen \<Rightarrow> regex_test re_id_basic s
      | Shape \<Rightarrow> regex_test (if length s = 15 then re_id15 else re_id18) s
      | Region \<Rightarrow> checkAddressCode (js_substring s 0 6)
      | Birthday \<Rightarrow> checkBirthDayCode now (if length s = 15 then ''19'' @ js_substring s 6 12 else js_substring s 6 14)
      | Parity \<Rightarrow> checkParityBit s)"

definition final_stage :: "string \<Rightarrow> check_stage" where
  "final_stage s = (if length s = 15 then Birthday else Parity)"

definition re_id_basic_grouped :: regex where
  \<comment> \<open>\<open>/^(\d{15}|\d{17}(\d|x|X))$/\<close>: both alternatives anchored at both ends\<close>
  "re_id_basic_grouped = seqs [Bol, Alt (rep digit 15) (seqs [rep digit 17, re_check_char]), Eol]"

definition checkIdCardNo_grouped :: "js_date \<Rightarrow> string \<Rightarrow> bool" where
  "checkIdCardNo_grouped now idCardNo =
     (if \<not> regex_test re_id_basic_grouped idCardNo then False
      else if length idCardNo = 15 then check15IdCardNo now idCardNo
      else if length idCardNo = 18 then check18IdCardNo now idCardNo
      else False)"

subsection \<open>Lemmas\<close>

lemma checkIdCardNo_trace_result: "snd (checkIdCardNo_trace now s) = checkIdCardNo now s"
  by (simp add: checkIdCardNo_trace_def check15_trace_def check18_trace_def checkIdCardNo_def
      check15IdCardNo_def check18IdCardNo_def split: prod.splits)

lemma re_id_basic_grouped_iff:
  "regex_test re_id_basic_grouped s \<longleftrightarrow>
     (length s = 15 \<and> digits_upto 15 s) \<or> (length s = 18 \<and> digits_upto 17 s \<and> check_char_ok (s ! 17))"
  by (auto simp: re_id_basic_grouped_def regex_test_anchored [of "[_]", simplified] ends_pieces
      digits_upto_iff)

lemma check18_grouped:
  assumes "check18IdCardNo now s"
  shows "regex_test re_id_basic_grouped s"
proof -
  from assms have sh: "id18_shape s" by (simp add: check18IdCardNo_iff)
  then have "digits_upto 17 s" using re_id18_digits [of s] by (simp add: re_id18_iff)
  with sh show ?thesis by (simp add: re_id_basic_grouped_iff id18_shape_def)
qed

lemma check15_grouped:
  assumes "check15IdCardNo now s"
  shows "regex_test re_id_basic_grouped s"
proof -
  from assms have sh: "id15_shape s" by (simp add: check15IdCardNo_iff)
  then have "digits_upto 15 s" using re_id15_digits [of s] by (simp add: re_id15_iff)
  with sh show ?thesis by (simp add: re_id_basic_grouped_iff id15_shape_def)
qed

subsection \<open>Properties of the control flow\<close>

text \<open>C39: \<open>checkIdCardNo\<close> runs its checks in the order screening, shape, region,
  birth date, check character, stopping at the first that fails: the checks it runs form
  a non-empty prefix of that order, every check before the last one it runs has passed,
  and it accepts exactly when every check it ran passed and the last is the final check
  for the length (the birth date for 15 characters, the check character for 18). In
  particular the check character is computed only for strings whose region and birth
  date are valid (spec.md section 7).\<close>

theorem checkIdCardNo_check_order:
  assumes "checkIdCardNo_trace now s = (t, r)"
  shows "t \<noteq> [] \<and> t = take (length t) check_order \<and> list_all (stage_ok now s) (butlast t) \<and>
         (r \<longleftrightarrow> list_all (stage_ok now s) t \<and> last t = final_stage s)"
  using assms
  by (auto simp: checkIdCardNo_trace_def check15_trace_def check18_trace_def check_order_def
      stage_ok_def final_stage_def split: if_splits)

text \<open>C40: the slip in the screening expression of \<open>checkIdCardNo\<close> (C10) has no effect:
  \<open>checkIdCardNo\<close> gives the same answer on every string as the method with the
  grouping \<open>/^(\d{15}|\d{17}(\d|x|X))$/\<close>, because the length dispatch and the strict
  expressions of \<open>check15IdCardNo\<close> and \<open>check18IdCardNo\<close> reject everything the
  weaker screen lets through.\<close>

theorem checkIdCardNo_grouped_equiv: "checkIdCardNo now s = checkIdCardNo_grouped now s"
  using check15_grouped [of now s] check18_grouped [of now s]
  by (auto simp: checkIdCardNo_cases checkIdCardNo_grouped_def)

subsection \<open>Witnesses\<close>

lemma checkIdCardNo_check_order_witness:
  "checkIdCardNo_trace \<lparr>date_year = 2026, date_month = 10, date_day = 9, date_time = 3600000\<rparr>
     ''110105194912310021'' = ([Screen, Shape, Region, Birthday, Parity], False) \<and>
   checkAddressCode (js_substring ''110105194912310021'' 0 6) \<and>
   checkBirthDayCode \<lparr>date_year = 2026, date_month = 10, date_day = 9, date_time = 3600000\<rparr>
     (js_substring ''110105194912310021'' 6 14) \<and>
   \<not> checkParityBit ''110105194912310021''"
proof -
  let ?now = "\<lparr>date_year = 2026, date_month = 10, date_day = 9, date_time = 3600000\<rparr> :: js_date"
  have tr: "checkIdCardNo_trace ?now ''110105194912310021'' = ([Screen, Shape, Region, Birthday, Parity], False)"
    by code_simp
  have "list_all (stage_ok ?now ''110105194912310021'') [Screen, Shape, Region, Birthday] \<and>
        \<not> list_all (stage_ok ?now ''110105194912310021'') [Screen, Shape, Region, Birthday, Parity]"
    using checkIdCardNo_check_order [OF tr] by (simp add: final_stage_def check_order_def)
  with tr show ?thesis by (simp add: stage_ok_def)
qed

end
