(* ===== verification/Spec2Isabelle.thy ===== *)
theory Spec2Isabelle
  imports IdCardSpec Keyboard ValidatorFlow
begin

text \<open>
  Verification development of src/js/idCardNoUtil.js, the validator and converter of
  Chinese resident identity numbers (GB 11643-1999), and of src/js/Keyboard.js, a table
  of \<open>KeyboardEvent.code\<close> strings.

  \<^bold>\<open>The program.\<close> The class \<open>idCardNoUtil\<close> holds three tables
  (\<open>provinceAndCitys\<close>, the region prefixes; \<open>powers\<close>, the 17 weights;
  \<open>parityBit\<close>, the 11 check characters) and pure methods over a candidate string:
  \<open>checkIdCardNo\<close> screens the string with a regular expression and dispatches on
  its length to \<open>check15IdCardNo\<close> or \<open>check18IdCardNo\<close>; these check the
  shape with a regular expression, then the region (\<open>checkAddressCode\<close>), the birth
  date (\<open>checkBirthDayCode\<close>, which builds a JavaScript \<open>Date\<close> and compares it
  with the clock) and, for 18 characters, the check character (\<open>checkParityBit\<close>,
  \<open>getParityBit\<close>). \<open>getIdCardInfo\<close> (with \<open>formateDateCN\<close>),
  \<open>getId15\<close> and \<open>getId18\<close> extract the birthday and gender and convert between
  the two formats without validating; \<open>getId18\<close> calls \<open>getParityBit\<close>.
  Every method is a function of its arguments; the only outside input is the clock read
  by \<open>new Date()\<close> in \<open>checkBirthDayCode\<close>, which the model takes as the
  argument \<open>now\<close> of the checks.

  \<^bold>\<open>The library.\<close>
  \<^item> \<open>Prelude\<close>: the JavaScript primitives the code calls (\<open>substring\<close>,
    \<open>charAt\<close>, \<open>toUpperCase\<close>, \<open>parseInt\<close>, \<open>%\<close>, array indexing), with
    \<open>NaN\<close> and \<open>undefined\<close> as \<open>None\<close>; written from the ECMAScript
    specification, with their evaluation rules in the collection \<open>js_simps\<close>.
  \<^item> \<open>Regex\<close>: the regular-expression fragment of the code, an executable matcher
    \<open>ends\<close>/\<open>regex_test\<close> (\<open>RegExp.prototype.test\<close>), and its agreement with
    the inductive semantics \<open>re_match\<close> (\<open>ends_iff_re_match\<close>).
  \<^item> \<open>JsDate\<close>: \<open>new Date(y, m, d)\<close> with month and day overflow
    (\<open>norm_day\<close>, a \<open>function\<close> with a measure), its getters and the comparison \<open>\<greater>\<close>.
    \<open>new_date_fields\<close> shows that the getters give back the arguments exactly when
    they name a real calendar day, which is what the code's round-trip test relies on.
    The time value of ECMAScript (\<open>day_from_year\<close> = DayFromYear, \<open>make_day\<close> =
    MakeDay, \<open>time_value\<close> = MakeDate) justifies the broken-down model:
    \<open>norm_day_make_day\<close> shows the carries keep the day MakeDay denotes,
    \<open>new_date_time_value\<close> that \<open>new Date(y, m, d)\<close> has time value
    MakeDay(y, m, d) * msPerDay, and \<open>date_key_time_value\<close> /
    \<open>date_after_time_value\<close> that on normalised dates the order of the fields is the
    order of the time values, i.e. \<open>date_after\<close> is the engine's \<open>\<greater>\<close>.
  \<^item> \<open>Checksum\<close> (idCardNoUtil.js lines 79-128): \<open>powers\<close>, \<open>parityBit\<close>,
    the loop of \<open>getParityBit\<close> (\<open>power_loop\<close>, \<open>NaN\<close> propagated for a
    non-digit) and \<open>checkParityBit\<close>. \<open>power_loop_refines\<close> shows the loop computes
    the reference \<open>weighted_sum\<close>; C1 shows the tables implement ISO 7064 MOD 11-2;
    C2 and C3 show every single-digit error and every adjacent transposition is detected;
    C31 bounds the loop's sum (0..900) and shows the index into \<open>parityBit\<close> is in range;
    C36 shows that the \<open>for\<close> loop as written (\<open>power_while\<close>, a \<open>while_option\<close>
    over the state \<open>(i, power)\<close>) stops after exactly 17 iterations with the value of
    \<open>power_loop\<close>.
  \<^item> \<open>IdCardCheck\<close> (lines 32-171): the region table, the regular expressions as
    \<open>regex\<close> values, \<open>checkAddressCode\<close>, \<open>checkBirthDayCode\<close>,
    \<open>check15IdCardNo\<close>, \<open>check18IdCardNo\<close> and \<open>checkIdCardNo\<close> with their
    guards in source order. Each regular expression is characterised by a predicate on
    the characters (\<open>re_id18_iff\<close> and the like); C4 and C5 give the accepted strings
    of each length in closed form, C6-C9 the properties of accepted codes, of the date
    check and of the region check, C10 the precedence slip of the screening expression,
    C26 the rejection of birth dates that are not calendar days, C32 the ranges of an
    accepted birth date, C37 the date check restated on ECMAScript time values
    (milliseconds), which is the comparison the engine performs, C38 the region table
    (35 distinct keys in 11..91, so \<open>map_of\<close>'s first-wins lookup agrees with the
    object literal's last-wins one).
  \<^item> \<open>ValidatorFlow\<close> (lines 134-171): \<open>checkIdCardNo_trace\<close>,
    \<open>check15_trace\<close>, \<open>check18_trace\<close> follow the early returns and record the
    checks run (\<open>checkIdCardNo_trace_result\<close>: the result is \<open>checkIdCardNo\<close>'s).
    C39: the checks run in the order screening, shape, region, birth date, check
    character and stop at the first failure (spec.md section 7). C40: \<open>checkIdCardNo\<close>
    equals the method with the screening expression grouped as intended, so the slip of
    C10 has no effect.
  \<^item> \<open>IdCardConvert\<close> (lines 85-228): \<open>gender\<close>, the record \<open>idCardInfo\<close>,
    \<open>formateDateCN\<close>, \<open>getIdCardInfo\<close>, \<open>getId15\<close>, \<open>getId18\<close>. C11, C12
    and C21 are the round trips between the formats, C13 the string "undefined" that
    \<open>getId18\<close> appends for a non-digit, C14-C16 the gender and birthday reported and
    their invariance under upgrading, C17 the result for other lengths, C33 the form
    yyyy-mm-dd of the reported birthday.
  \<^item> \<open>IdCardSpec\<close>: the abstract model of spec.md. An \<open>identity_code\<close> record
    (region, birth date with explicit century, sequence, optional check character) is
    obtained from a string by the abstraction function \<open>parse_id\<close>;
    \<open>valid_identity\<close> is the specification's validity, with the check character
    defined by ISO 7064 from the weights \<open>2^(i-1) mod 11\<close> of the source's header
    comment (\<open>WeightVector\<close>, \<open>computeChecksum\<close>), independent of the code's tables;
    \<open>upgrade\<close>, \<open>downgrade\<close>, \<open>info_of\<close> are the abstract operations. C27
    shows \<open>checkIdCardNo\<close> accepts exactly the valid decompositions; C34 and C35
    show \<open>getParityBit\<close> and \<open>checkParityBit\<close> implement \<open>computeChecksum\<close> and
    \<open>verifyChecksum\<close>; C28-C30 are the
    functional refinements \<open>parse_id (f s) = g (parse_id s)\<close> of \<open>getId18\<close>,
    \<open>getId15\<close> and (on accepted codes) \<open>getIdCardInfo\<close>.
  \<^item> \<open>Keyboard\<close> (Keyboard.js): \<open>Keys\<close> as a property list, \<open>set\<close> as
    \<open>set_pair\<close>, property access \<open>js_get\<close> and key paths \<open>code_of\<close>. C22 shows
    no entry is shadowed, C23 that paths and codes correspond one to one, C24 that the
    \<open>set\<close> pairs are stem+Left/stem+Right, C25 that the Control and Meta keys are
    named by strings that are not their \<open>KeyboardEvent.code\<close>.
  \<^item> This theory: the properties that span the validator and the converters. C18: an
    accepted 15-character code is upgraded to an accepted 18-character code; C19: an
    accepted 18-character code of the 1900s is downgraded to an accepted 15-character
    code; C20: without the 1900s condition this fails (born 29 February 2000).

  \<^bold>\<open>Bounds and fuel.\<close> No fuel is used: \<open>power_loop\<close> terminates by the measure
  \<open>17 - i\<close>, \<open>norm_day\<close> by a measure on the day that every carry decreases (a
  month has 28 to 31 days). The numbers the code computes are small integers (a weighted
  sum is at most 900 by C31), so \<open>int\<close> is exact for the JavaScript doubles involved.
  The only loop of the program is the 17-iteration \<open>for\<close> of \<open>getParityBit\<close>; its
  termination is C36. The program has no reactive state (every method is a function of
  its arguments and the clock), so it has no liveness property.

  \<^bold>\<open>Not modelled.\<close> Time zones and daylight-saving shifts of \<open>Date\<close> (the clock
  is the argument \<open>now\<close>, a local date and time of day); code units above 255 (the
  model's \<open>char\<close> is a byte) and \<open>toUpperCase\<close> beyond ASCII letters; the
  Chinese display strings of \<open>provinceAndCitys\<close> and \<open>genders\<close>, replaced by pinyin
  names and a datatype (the code uses only their truthiness and identity). These are why
  the JavaScript runtime stays partly modelled: \<open>toUpperCase\<close> of a byte above 127
  can leave the byte range or the length of one (micro sign, y with diaeresis,
  sharp s), and its result is only ever compared with a check character (a digit or X),
  which no such result equals; the clock's time zone only shifts \<open>now\<close>. The
  remaining lines of the source are comments; of the header comment, the weight
  formula is modelled (\<open>WeightVector\<close>) and the documented expressions are compared
  with the code in the findings.
\<close>

subsection \<open>Conversion and validity\<close>

lemma id18_of15_nth:
  assumes "length s = 15" and "k < 18"
  shows "(id17_of15 s @ [c]) ! k =
           (if k < 6 then s ! k else if k = 6 then CHR ''1'' else if k = 7 then CHR ''9''
            else if k < 17 then s ! (k - 2) else c)"
  using assms by (auto simp: id17_of15_def nth_append min_def)

lemma id15_of18_nth:
  assumes "length s = 18" and "k < 15"
  shows "(take 6 s @ take 9 (drop 8 s)) ! k = (if k < 6 then s ! k else s ! (k + 2))"
  using assms by (auto simp: nth_append add.commute)

lemma id18_shape_of15:
  assumes sh: "id15_shape s" and c: "is_digit c \<or> c = CHR ''X''"
  shows "id18_shape (id17_of15 s @ [c])"
proof -
  let ?t = "id17_of15 s @ [c]"
  have l: "length s = 15" using sh by (simp add: id15_shape_def)
  note t = id18_of15_nth [OF l]
  have a: "\<forall>k<5. is_digit (?t ! Suc k)"
  proof (intro allI impI)
    fix k :: nat assume "k < 5"
    with sh t [of "Suc k"] show "is_digit (?t ! Suc k)" by (simp add: id15_shape_def)
  qed
  have b: "\<forall>k<3. is_digit (?t ! (k + 7))"
  proof (intro allI impI)
    fix k :: nat assume "k < 3"
    then consider "k = 0" | "k = 1" | "k = 2" by linarith
    then show "is_digit (?t ! (k + 7))"
    proof cases
      case 1 then show ?thesis by (simp add: t is_digit_def)
    next
      case 2 then show ?thesis using sh t [of 8] by (auto simp: id15_shape_def dest: spec [of _ 5])
    next
      case 3 then show ?thesis using sh t [of 9] by (auto simp: id15_shape_def dest: spec [of _ 6])
    qed
  qed
  have e: "\<forall>k<3. is_digit (?t ! (k + 14))"
  proof (intro allI impI)
    fix k :: nat assume "k < 3"
    with sh t [of "k + 14"] show "is_digit (?t ! (k + 14))" by (simp add: id15_shape_def add.commute)
  qed
  have "nz_digit (CHR ''1'')" by (simp add: nz_digit_def is_digit_def)
  moreover have "check_char_ok c" using c by (auto simp: check_char_ok_def)
  ultimately show ?thesis using sh a b e l
    by (simp add: id18_shape_def id15_shape_def t id17_of15_length)
qed

lemma id15_shape_of18:
  assumes sh: "id18_shape s"
  shows "id15_shape (take 6 s @ take 9 (drop 8 s))"
proof -
  let ?u = "take 6 s @ take 9 (drop 8 s)"
  have l: "length s = 18" using sh by (simp add: id18_shape_def)
  note u = id15_of18_nth [OF l]
  have a: "\<forall>k<7. is_digit (?u ! Suc k)"
  proof (intro allI impI)
    fix k :: nat assume k: "k < 7"
    show "is_digit (?u ! Suc k)"
    proof (cases "k < 5")
      case True with sh u [of "Suc k"] show ?thesis by (simp add: id18_shape_def)
    next
      case False
      with k have i: "Suc k + 2 = (k - 4) + 7" and j: "k - 4 < 3" by linarith+
      from sh j have "is_digit (s ! ((k - 4) + 7))" by (simp add: id18_shape_def)
      then have "is_digit (s ! (Suc k + 2))" by (simp only: i)
      with False k u [of "Suc k"] show ?thesis by simp
    qed
  qed
  have e: "\<forall>k<3. is_digit (?u ! (k + 12))"
  proof (intro allI impI)
    fix k :: nat assume "k < 3"
    with sh u [of "k + 12"] show "is_digit (?u ! (k + 12))" by (simp add: id18_shape_def add.commute)
  qed
  from sh a e l show ?thesis by (simp add: id18_shape_def id15_shape_def u)
qed

subsection \<open>Properties spanning the validator and the converters\<close>

text \<open>C18: \<open>getId18\<close> turns every 15-character code that \<open>checkIdCardNo\<close>
  accepts into an 18-character code that \<open>checkIdCardNo\<close> accepts (same region, same
  birth date, check character computed by \<open>getParityBit\<close>), and \<open>getId15\<close> takes it
  back to the original.\<close>

theorem getId18_valid:
  assumes "checkIdCardNo now s" and "length s = 15"
  shows "\<exists>t. getId18 s = Some t \<and> checkIdCardNo now t \<and> getId15 t = Some s"
proof -
  from assms have c15: "check15IdCardNo now s" by (simp add: checkIdCardNo_cases)
  then have sh: "id15_shape s" and reg: "int (two_digit_val (s ! 0) (s ! 1)) \<in> dom provinceAndCitys"
    and b: "birth_ok now (''19'' @ take 6 (drop 6 s))"
    by (simp_all add: check15IdCardNo_iff)
  have "list_all is_digit s"
    using re_id15_digits [of s] sh assms(2) by (simp add: re_id15_iff digits_upto_def)
  then obtain c where g: "getId18 s = Some (id17_of15 s @ [c])"
    and p: "parityBit ! nat (weighted_sum (id17_of15 s) mod 11) = [c]"
    and u: "to_upper_char c = c" and d: "is_digit c \<or> c = CHR ''X''"
    using getId18_digits [OF assms(2)] by blast
  let ?t = "id17_of15 s @ [c]"
  have len: "length ?t = 18" using id17_of15_length [OF assms(2)] by simp
  have "take 17 ?t = id17_of15 s" using id17_of15_length [OF assms(2)] by simp
  then have w: "weighted_sum ?t = weighted_sum (id17_of15 s)" by (metis weighted_sum_take)
  have "take 8 (drop 6 ?t) = ''19'' @ take 6 (drop 6 s)" using assms(2) by (simp add: id17_of15_def)
  with sh reg b p u d w len assms(2) have "check18IdCardNo now ?t"
    by (simp add: check18IdCardNo_iff id18_shape_of15 id18_of15_nth)
  with len g getId15_id17 [OF assms(2)] show ?thesis by (auto simp: checkIdCardNo_cases)
qed

text \<open>C19: \<open>getId15\<close> turns every accepted 18-character code of a person born in the
  1900s into a 15-character code that \<open>checkIdCardNo\<close> accepts.\<close>

theorem getId15_valid_1900s:
  assumes "checkIdCardNo now s" and "length s = 18" and "take 2 (drop 6 s) = ''19''"
  shows "\<exists>u. getId15 s = Some u \<and> checkIdCardNo now u"
proof -
  let ?u = "take 6 s @ take 9 (drop 8 s)"
  from assms have "check18IdCardNo now s" by (simp add: checkIdCardNo_cases)
  then have sh: "id18_shape s" and reg: "int (two_digit_val (s ! 0) (s ! 1)) \<in> dom provinceAndCitys"
    and b: "birth_ok now (take 8 (drop 6 s))"
    by (simp_all add: check18IdCardNo_iff)
  have len: "length ?u = 15" using assms(2) by simp
  have "take 8 (drop 6 s) = ''19'' @ take 6 (drop 8 s)"
    using take_add [of 2 6 "drop 6 s"] assms(3) by simp
  moreover have "take 6 (drop 6 ?u) = take 6 (drop 8 s)" using assms(2) by simp
  ultimately have "check15IdCardNo now ?u"
    using sh reg b assms(2) by (simp add: check15IdCardNo_iff id15_shape_of18 id15_of18_nth)
  with len assms(2) show ?thesis by (simp add: checkIdCardNo_cases getId15_18)
qed


subsection \<open>Witnesses\<close>

lemma getId18_valid_witness:
  "checkIdCardNo \<lparr>date_year = 2026, date_month = 10, date_day = 9, date_time = 3600000\<rparr> ''110105491231002'' \<and>
   (\<exists>t. getId18 ''110105491231002'' = Some t \<and>
        checkIdCardNo \<lparr>date_year = 2026, date_month = 10, date_day = 9, date_time = 3600000\<rparr> t \<and>
        getId15 t = Some ''110105491231002'')"
proof -
  have a: "checkIdCardNo \<lparr>date_year = 2026, date_month = 10, date_day = 9, date_time = 3600000\<rparr>
             ''110105491231002''" by code_simp
  show ?thesis using getId18_valid [OF a] a by simp
qed

lemma getId15_valid_1900s_witness:
  "checkIdCardNo \<lparr>date_year = 2026, date_month = 10, date_day = 9, date_time = 3600000\<rparr> ''11010519491231002X'' \<and>
   (\<exists>u. getId15 ''11010519491231002X'' = Some u \<and>
        checkIdCardNo \<lparr>date_year = 2026, date_month = 10, date_day = 9, date_time = 3600000\<rparr> u)"
proof -
  have a: "checkIdCardNo \<lparr>date_year = 2026, date_month = 10, date_day = 9, date_time = 3600000\<rparr>
             ''11010519491231002X''" by code_simp
  show ?thesis using getId15_valid_1900s [OF a] a by simp
qed

end
